theory Spec2Isabelle
  imports Complex_Main "HOL-Library.Word" "HOL-Library.AList"
begin

section \<open>Conventions of the embedding\<close>

text \<open>
  The two source files are \<^verbatim>\<open>src/server.py\<close> (class \<^verbatim>\<open>HUDPServer\<close>) and
  \<^verbatim>\<open>src/client.py\<close> (class \<^verbatim>\<open>HUDPClient\<close>).

  \<^item> Python integers that only count upwards from zero (sequence numbers, counters) are
    \<open>nat\<close>; the millisecond timestamp \<^verbatim>\<open>int(time.time() * 1000)\<close> is an \<open>int\<close>.
  \<^item> Python floats (clock readings, the jitter estimate) are read as \<open>real\<close>: rounding of
    binary floating point is not part of the model.
  \<^item> Every reading of \<^verbatim>\<open>time.time()\<close> is an argument of the function that reads it.
  \<^item> \<^verbatim>\<open>bytes\<close> are lists of 8-bit words; \<^verbatim>\<open>struct.pack\<close> raises \<^verbatim>\<open>struct.error\<close> on a
    value that does not fit its field, which is the result \<open>Inl StructError\<close>.
  \<^item> The UTF-8 codec of the Python runtime is not code of the repository; the functions
    below take it as the parameters \<open>encode\<close> and \<open>decode\<close> (\<open>None\<close> stands for
    \<^verbatim>\<open>UnicodeDecodeError\<close>).
  \<^item> \<^verbatim>\<open>socket.sendto\<close> is the append of the datagram and its destination to a log of
    what the endpoint has put on the wire; it is taken to succeed.
  \<^item> Each thread body (\<^verbatim>\<open>_packet_receiver\<close>, \<^verbatim>\<open>_timeout_checker\<close>, \<^verbatim>\<open>_ack_listener\<close>,
    \<^verbatim>\<open>_retransmit_checker\<close>) is modelled by one iteration of its loop, and the iterations
    of the threads and the calls of the application are interleaved as atomic steps.
  \<^item> The client's fields carry the prefix \<open>c_\<close>, since both classes have fields named
    \<^verbatim>\<open>pending_packets\<close> and \<^verbatim>\<open>metrics\<close>. The nested dicts of \<^verbatim>\<open>metrics\<close> are flat
    records. The socket object and the flag \<^verbatim>\<open>running\<close>, which only ends the loops, are
    not part of the state.
\<close>

section \<open>Wire format\<close>

type_synonym byte = "8 word"
type_synonym addr = "string \<times> nat"

datatype error = StructError | TypeError

text \<open>Little-endian encoding of \<open>n\<close> in \<open>k\<close> bytes, and the value of a little-endian byte string.\<close>

fun le_bytes :: "nat \<Rightarrow> nat \<Rightarrow> byte list" where
  "le_bytes 0 n = []"
| "le_bytes (Suc k) n = of_nat (n mod 256) # le_bytes k (n div 256)"

fun le_nat :: "byte list \<Rightarrow> nat" where
  "le_nat [] = 0"
| "le_nat (b # bs) = unat b + 256 * le_nat bs"

text \<open>\<^verbatim>\<open>HEADER_FORMAT = '<BQQ'\<close>, \<^verbatim>\<open>ACK_FORMAT = '<BQ'\<close> and their \<^verbatim>\<open>struct.calcsize\<close>.\<close>

definition HEADER_SIZE :: nat where
  "HEADER_SIZE = 17"

definition ACK_SIZE :: nat where
  "ACK_SIZE = 9"

definition pack_header :: "nat \<Rightarrow> nat \<Rightarrow> int \<Rightarrow> error + byte list" where
  "pack_header channel_type seqno timestamp_ms =
     (if channel_type < 256 \<and> seqno < 2 ^ 64 \<and> 0 \<le> timestamp_ms \<and> timestamp_ms < 2 ^ 64
      then Inr (le_bytes 1 channel_type @ le_bytes 8 seqno @ le_bytes 8 (nat timestamp_ms))
      else Inl StructError)"

definition unpack_header :: "byte list \<Rightarrow> error + (nat \<times> nat \<times> nat)" where
  "unpack_header h =
     (if length h \<noteq> HEADER_SIZE then Inl StructError
      else Inr (le_nat (take 1 h), le_nat (take 8 (drop 1 h)), le_nat (take 8 (drop 9 h))))"

definition pack_ack :: "nat \<Rightarrow> nat \<Rightarrow> error + byte list" where
  "pack_ack marker seqno =
     (if marker < 256 \<and> seqno < 2 ^ 64 then Inr (le_bytes 1 marker @ le_bytes 8 seqno)
      else Inl StructError)"

definition unpack_ack :: "byte list \<Rightarrow> error + (nat \<times> nat)" where
  "unpack_ack a =
     (if length a \<noteq> ACK_SIZE then Inl StructError
      else Inr (le_nat (take 1 a), le_nat (take 8 (drop 1 a))))"

section \<open>The server (src/server.py)\<close>

definition TIMEOUT_THRESHOLD :: real where
  "TIMEOUT_THRESHOLD = 2 / 10"

record server_metrics =
  packets_received_reliable :: nat
  packets_received_unreliable :: nat
  packets_delivered_reliable :: nat
  packets_delivered_unreliable :: nat
  packets_skipped :: nat
  bytes_received :: nat
  jitter :: real
  last_arrival :: "real option"
  last_timestamp :: "nat option"
  start_time :: real

record server =
  reliable_buffer :: "nat \<rightharpoonup> string"
  pending_packets :: "nat \<rightharpoonup> real"
  next_expected_reliable :: nat
  gap_start_time :: "real option"
  unreliable_queue :: "(nat \<times> string) list"
  metrics :: server_metrics
  socket_out :: "(byte list \<times> addr) list"

text \<open>\<^verbatim>\<open>__init__\<close>; \<open>t0\<close> is the clock reading stored as \<^verbatim>\<open>start_time\<close>.\<close>

definition server_init :: "real \<Rightarrow> server" where
  "server_init t0 =
     \<lparr> reliable_buffer = Map.empty,
       pending_packets = Map.empty,
       next_expected_reliable = 0,
       gap_start_time = None,
       unreliable_queue = [],
       metrics = \<lparr> packets_received_reliable = 0, packets_received_unreliable = 0,
                   packets_delivered_reliable = 0, packets_delivered_unreliable = 0,
                   packets_skipped = 0, bytes_received = 0, jitter = 0,
                   last_arrival = None, last_timestamp = None, start_time = t0 \<rparr>,
       socket_out = [] \<rparr>"

text \<open>
  The loop \<^verbatim>\<open>for i in range(self.next_expected_reliable, seqno)\<close> of
  \<^verbatim>\<open>_handle_reliable_channel\<close>, over the list of the range's values.
\<close>

fun mark_gaps :: "real \<Rightarrow> nat list \<Rightarrow> server \<Rightarrow> server" where
  "mark_gaps start [] s = s"
| "mark_gaps start (i # rest) s =
     (if pending_packets s i \<noteq> None \<or> reliable_buffer s i \<noteq> None
      then mark_gaps start rest s
      else mark_gaps start rest (s\<lparr>pending_packets := (pending_packets s)(i \<mapsto> start)\<rparr>))"

text \<open>
  \<^verbatim>\<open>_handle_reliable_channel(seqno, payload, client_addr)\<close>; \<open>now\<close> is the reading
  \<^verbatim>\<open>start_time = time.time()\<close> of the branch that opens gap waits.
\<close>

definition handle_reliable_channel ::
    "nat \<Rightarrow> string \<Rightarrow> addr \<Rightarrow> real \<Rightarrow> server \<Rightarrow> error + server" where
  "handle_reliable_channel seqno payload client_addr now s =
     (case pack_ack 255 seqno of
        Inl e \<Rightarrow> Inl e
      | Inr ack \<Rightarrow>
          (let s1 = s\<lparr>socket_out := socket_out s @ [(ack, client_addr)]\<rparr> in
           if seqno < next_expected_reliable s1 then Inr s1
           else if reliable_buffer s1 seqno = None then
             (let s2 = s1\<lparr>reliable_buffer := (reliable_buffer s1)(seqno \<mapsto> payload)\<rparr>;
                  s3 = (if pending_packets s2 seqno \<noteq> None
                        then s2\<lparr>pending_packets := (pending_packets s2)(seqno := None)\<rparr>
                        else s2)
              in if seqno > next_expected_reliable s3
                 then Inr (mark_gaps now [next_expected_reliable s3..<seqno] s3)
                 else Inr s3)
           else Inr s1))"

text \<open>\<^verbatim>\<open>_handle_unreliable_channel(seqno, payload)\<close>.\<close>

definition handle_unreliable_channel :: "nat \<Rightarrow> string \<Rightarrow> server \<Rightarrow> server" where
  "handle_unreliable_channel seqno payload s =
     s\<lparr>unreliable_queue := unreliable_queue s @ [(seqno, payload)]\<rparr>"

text \<open>\<^verbatim>\<open>receive_reliable()\<close>: the value returned (\<open>None\<close> is Python's \<^verbatim>\<open>None\<close>) and the new state.\<close>

definition receive_reliable :: "server \<Rightarrow> (nat \<times> string) option \<times> server" where
  "receive_reliable s =
     (case reliable_buffer s (next_expected_reliable s) of
        Some payload \<Rightarrow>
          (let seqno = next_expected_reliable s;
               s1 = s\<lparr>reliable_buffer := (reliable_buffer s)(seqno := None)\<rparr>;
               s2 = s1\<lparr>next_expected_reliable := next_expected_reliable s1 + 1\<rparr>;
               s3 = s2\<lparr>gap_start_time := None\<rparr>;
               s4 = s3\<lparr>metrics := (metrics s3)
                      \<lparr>packets_delivered_reliable :=
                         packets_delivered_reliable (metrics s3) + 1\<rparr>\<rparr>
           in (Some (seqno, payload), s4))
      | None \<Rightarrow> (None, s))"

text \<open>\<^verbatim>\<open>receive_unreliable()\<close>.\<close>

definition receive_unreliable :: "server \<Rightarrow> (nat \<times> string) option \<times> server" where
  "receive_unreliable s =
     (case unreliable_queue s of
        [] \<Rightarrow> (None, s)
      | pkt # rest \<Rightarrow> (Some (fst pkt, snd pkt), s\<lparr>unreliable_queue := rest\<rparr>))"

text \<open>
  One iteration of the loop of \<^verbatim>\<open>_timeout_checker\<close> after its sleep; \<open>now\<close> is the
  reading of \<^verbatim>\<open>time.time()\<close> in \<^verbatim>\<open>elapsed\<close>.
\<close>

definition timeout_checker :: "real \<Rightarrow> server \<Rightarrow> server" where
  "timeout_checker now s =
     (case pending_packets s (next_expected_reliable s) of
        Some start \<Rightarrow>
          (let elapsed = now - start in
           if elapsed > TIMEOUT_THRESHOLD then
             (let seqno = next_expected_reliable s;
                  s1 = s\<lparr>pending_packets := (pending_packets s)(seqno := None)\<rparr>;
                  s2 = s1\<lparr>metrics := (metrics s1)
                         \<lparr>packets_skipped := packets_skipped (metrics s1) + 1\<rparr>\<rparr>
              in s2\<lparr>next_expected_reliable := seqno + 1\<rparr>)
           else s)
      | None \<Rightarrow> s)"

text \<open>
  \<^verbatim>\<open>_calculate_jitter(timestamp, arrival_time)\<close>. The subtraction
  \<^verbatim>\<open>timestamp - self.metrics['last_timestamp']\<close> raises \<^verbatim>\<open>TypeError\<close> when the stored
  timestamp is \<^verbatim>\<open>None\<close>.
\<close>

definition calculate_jitter :: "nat \<Rightarrow> real \<Rightarrow> server \<Rightarrow> error + server" where
  "calculate_jitter timestamp arrival_time s =
     (let m = metrics s;
          stored = (\<lambda>m1. s\<lparr>metrics := m1\<lparr>last_arrival := Some arrival_time,
                                            last_timestamp := Some timestamp\<rparr>\<rparr>)
      in case last_arrival m of
           Some la \<Rightarrow>
             (case last_timestamp m of
                None \<Rightarrow> Inl TypeError
              | Some lt \<Rightarrow>
                  (let D = (arrival_time - la) - real_of_int (int timestamp - int lt) / 1000
                   in Inr (stored (m\<lparr>jitter := jitter m + (\<bar>D\<bar> - jitter m) / 16\<rparr>))))
         | None \<Rightarrow> Inr (stored m))"

text \<open>
  One iteration of the loop of \<^verbatim>\<open>_packet_receiver\<close> in which \<^verbatim>\<open>recvfrom\<close> returned the
  datagram \<open>data\<close> from \<open>client_addr\<close>. \<open>arrival_time\<close> is the reading of the clock in
  the reliable branch and \<open>now\<close> the one passed on to \<^verbatim>\<open>_handle_reliable_channel\<close>. An
  exception leaves the loop body through \<^verbatim>\<open>except Exception: continue\<close>, keeping the
  assignments made before it was raised.
\<close>

definition packet_receiver ::
    "(byte list \<Rightarrow> string option) \<Rightarrow> byte list \<Rightarrow> addr \<Rightarrow> real \<Rightarrow> real \<Rightarrow> server \<Rightarrow> server" where
  "packet_receiver decode data client_addr arrival_time now s =
     (if length data < HEADER_SIZE then s
      else case unpack_header (take HEADER_SIZE data) of
        Inl e \<Rightarrow> s
      | Inr (channel_type, seqno, timestamp) \<Rightarrow>
          (case decode (drop HEADER_SIZE data) of
             None \<Rightarrow> s
           | Some payload \<Rightarrow>
               if channel_type = 0 then
                 (let m = metrics s;
                      s1 = s\<lparr>metrics := m\<lparr>packets_received_reliable :=
                                               packets_received_reliable m + 1\<rparr>\<rparr>;
                      m1 = metrics s1;
                      s2 = s1\<lparr>metrics := m1\<lparr>bytes_received :=
                                                 bytes_received m1 + length payload\<rparr>\<rparr>
                  in case calculate_jitter timestamp arrival_time s2 of
                       Inl e \<Rightarrow> s2
                     | Inr s3 \<Rightarrow>
                         (case handle_reliable_channel seqno payload client_addr now s3 of
                            Inl e \<Rightarrow> s3
                          | Inr s4 \<Rightarrow> s4))
               else if channel_type = 1 then handle_unreliable_channel seqno payload s
               else s))"

text \<open>
  The steps of the server: a datagram handled by the receiver thread, a call of the
  application, or an iteration of the timeout thread. \<open>server_step\<close> gives the value
  returned to the application (\<open>None\<close> for a thread's step) and the new state.
\<close>

datatype event =
    Datagram "byte list" addr real real
  | ReceiveReliable
  | ReceiveUnreliable
  | TimeoutCheck real

fun server_step ::
    "(byte list \<Rightarrow> string option) \<Rightarrow> event \<Rightarrow> server \<Rightarrow> (nat \<times> string) option \<times> server" where
  "server_step decode (Datagram data client_addr arrival_time now) s =
     (None, packet_receiver decode data client_addr arrival_time now s)"
| "server_step decode ReceiveReliable s = receive_reliable s"
| "server_step decode ReceiveUnreliable s = receive_unreliable s"
| "server_step decode (TimeoutCheck now) s = (None, timeout_checker now s)"

text \<open>The state after a list of steps, and what the calls of \<^verbatim>\<open>receive_reliable\<close> returned.\<close>

fun run :: "(byte list \<Rightarrow> string option) \<Rightarrow> event list \<Rightarrow> server \<Rightarrow> server" where
  "run decode [] s = s"
| "run decode (e # es) s = run decode es (snd (server_step decode e s))"

fun reliable_outputs ::
    "(byte list \<Rightarrow> string option) \<Rightarrow> event list \<Rightarrow> server \<Rightarrow> (nat \<times> string) list" where
  "reliable_outputs decode [] s = []"
| "reliable_outputs decode (e # es) s =
     (case (e, fst (server_step decode e s)) of
        (ReceiveReliable, Some r) \<Rightarrow> [r]
      | _ \<Rightarrow> [])
     @ reliable_outputs decode es (snd (server_step decode e s))"

definition reachable :: "(byte list \<Rightarrow> string option) \<Rightarrow> server \<Rightarrow> bool" where
  "reachable decode s \<longleftrightarrow> (\<exists>t0 es. s = run decode es (server_init t0))"

section \<open>The client (src/client.py)\<close>

definition TIMEOUT :: real where
  "TIMEOUT = 1 / 10"

definition MAX_THRESHOLD :: real where
  "MAX_THRESHOLD = 2 / 10"

record tracked =
  packet :: "byte list"
  send_time :: real
  retries :: nat

record client_metrics =
  packets_sent_reliable :: nat
  packets_sent_unreliable :: nat
  packets_acked :: nat
  retransmissions :: nat
  latencies :: "real list"
  bytes_sent :: nat

text \<open>
  \<^verbatim>\<open>pending_packets\<close> is a dict that \<^verbatim>\<open>_retransmit_checker\<close> iterates in insertion order:
  an association list, updated in place or extended at its end as a dict is.
\<close>

record client =
  c_addr :: addr
  c_seqno :: nat
  c_pending_packets :: "(nat \<times> tracked) list"
  c_metrics :: client_metrics
  c_socket_out :: "(byte list \<times> addr) list"

definition client_init :: "addr \<Rightarrow> client" where
  "client_init a =
     \<lparr> c_addr = a, c_seqno = 0, c_pending_packets = [],
       c_metrics = \<lparr> packets_sent_reliable = 0, packets_sent_unreliable = 0,
                     packets_acked = 0, retransmissions = 0, latencies = [],
                     bytes_sent = 0 \<rparr>,
       c_socket_out = [] \<rparr>"

text \<open>Python's \<^verbatim>\<open>int(x)\<close> on a float: truncation towards zero.\<close>

definition py_int :: "real \<Rightarrow> int" where
  "py_int x = (if 0 \<le> x then \<lfloor>x\<rfloor> else \<lceil>x\<rceil>)"

text \<open>
  \<^verbatim>\<open>send_message(payload, isReliable)\<close>. \<open>t_stamp\<close> is the clock reading of
  \<^verbatim>\<open>timestamp_ms\<close>, \<open>t_sent\<close> the later one stored as \<^verbatim>\<open>send_time\<close>. The function has no
  \<^verbatim>\<open>return\<close> statement: the caller gets \<^verbatim>\<open>None\<close>, the second component of the result.
\<close>

definition send_message ::
    "(string \<Rightarrow> byte list) \<Rightarrow> string \<Rightarrow> bool \<Rightarrow> real \<Rightarrow> real \<Rightarrow> client
       \<Rightarrow> error + (client \<times> nat option)" where
  "send_message encode payload isReliable t_stamp t_sent c =
     (let timestamp_ms = py_int (t_stamp * 1000);
          channel_type = (if isReliable then 0 else 1)
      in case pack_header channel_type (c_seqno c) timestamp_ms of
           Inl e \<Rightarrow> Inl e
         | Inr header_bytes \<Rightarrow>
             (let payload_bytes = encode payload;
                  pkt = header_bytes @ payload_bytes;
                  c1 = c\<lparr>c_socket_out := c_socket_out c @ [(pkt, c_addr c)]\<rparr>;
                  c2 = (if isReliable
                        then c1\<lparr>c_pending_packets :=
                                  AList.update (c_seqno c1)
                                    \<lparr>packet = pkt, send_time = t_sent, retries = 0\<rparr>
                                    (c_pending_packets c1)\<rparr>
                        else c1);
                  c3 = c2\<lparr>c_seqno := c_seqno c2 + 1\<rparr>;
                  m = c_metrics c3;
                  m1 = m\<lparr>bytes_sent := bytes_sent m + length pkt\<rparr>;
                  m2 = (if isReliable
                        then m1\<lparr>packets_sent_reliable := packets_sent_reliable m1 + 1\<rparr>
                        else m1\<lparr>packets_sent_unreliable := packets_sent_unreliable m1 + 1\<rparr>)
              in Inr (c3\<lparr>c_metrics := m2\<rparr>, None)))"

text \<open>
  One iteration of the loop of \<^verbatim>\<open>_ack_listener\<close> in which \<^verbatim>\<open>recvfrom\<close> returned \<open>data\<close>;
  \<open>now\<close> is the clock reading of \<^verbatim>\<open>rtt\<close>.
\<close>

definition ack_listener :: "byte list \<Rightarrow> real \<Rightarrow> client \<Rightarrow> client" where
  "ack_listener data now c =
     (if length data \<ge> ACK_SIZE then
        (case unpack_ack (take ACK_SIZE data) of
           Inl e \<Rightarrow> c
         | Inr (channel_type, ack_seqno) \<Rightarrow>
             if channel_type = 255 then
               (case map_of (c_pending_packets c) ack_seqno of
                  Some info \<Rightarrow>
                    (let rtt = now - send_time info;
                         m = c_metrics c;
                         m1 = m\<lparr>latencies := latencies m @ [rtt]\<rparr>;
                         m2 = m1\<lparr>packets_acked := packets_acked m1 + 1\<rparr>
                     in c\<lparr>c_metrics := m2,
                          c_pending_packets := AList.delete ack_seqno (c_pending_packets c)\<rparr>)
                | None \<Rightarrow> c)
             else c)
      else c)"

text \<open>
  The body of the \<^verbatim>\<open>for\<close> loop of \<^verbatim>\<open>_retransmit_checker\<close> for one item of the snapshot
  \<^verbatim>\<open>list(self.pending_packets.items())\<close>. \<^verbatim>\<open>info\<close> is the dict stored under \<^verbatim>\<open>seqno\<close>, so
  the assignments to it change the stored entry in place. In a pass that runs as one
  atomic step the entry is still stored when its item is examined, so \<^verbatim>\<open>del\<close> finds it.
\<close>

definition retransmit_entry :: "real \<Rightarrow> nat \<times> tracked \<Rightarrow> client \<Rightarrow> client" where
  "retransmit_entry current item c =
     (let seqno = fst item; info = snd item;
          elapsed = current - send_time info
      in if elapsed > TIMEOUT then
           if elapsed > MAX_THRESHOLD
           then c\<lparr>c_pending_packets := AList.delete seqno (c_pending_packets c)\<rparr>
           else
             (let c1 = c\<lparr>c_socket_out := c_socket_out c @ [(packet info, c_addr c)]\<rparr>;
                  m = c_metrics c1;
                  c2 = c1\<lparr>c_metrics := m\<lparr>retransmissions := retransmissions m + 1\<rparr>\<rparr>
              in c2\<lparr>c_pending_packets :=
                      AList.map_entry seqno
                        (\<lambda>i. i\<lparr>send_time := current, retries := retries i + 1\<rparr>)
                        (c_pending_packets c2)\<rparr>)
         else c)"

text \<open>One iteration of the loop of \<^verbatim>\<open>_retransmit_checker\<close> after its sleep.\<close>

definition retransmit_checker :: "real \<Rightarrow> client \<Rightarrow> client" where
  "retransmit_checker current c =
     fold (retransmit_entry current) (c_pending_packets c) c"

section \<open>Properties and example states\<close>

text \<open>The key sets of the reorder buffer and of the gap-wait map are disjoint.\<close>

definition gap_disjoint :: "server \<Rightarrow> bool" where
  "gap_disjoint s \<longleftrightarrow> dom (reliable_buffer s) \<inter> dom (pending_packets s) = {}"

text \<open>
  What the application and the metrics observe of a step: a call of \<^verbatim>\<open>receive_reliable\<close>
  in state \<open>s\<close> returns a packet, and an iteration of the timeout thread at time \<open>now\<close>
  counts a skipped packet.
\<close>

definition delivers :: "server \<Rightarrow> bool" where
  "delivers s \<longleftrightarrow> fst (receive_reliable s) \<noteq> None"

definition skips :: "real \<Rightarrow> server \<Rightarrow> bool" where
  "skips now s \<longleftrightarrow>
     packets_skipped (metrics (timeout_checker now s)) = packets_skipped (metrics s) + 1"

text \<open>
  The two halves of the stored jitter sample are set together, so that
  \<^verbatim>\<open>_calculate_jitter\<close> does not meet a stored arrival time without a stored timestamp.
\<close>

definition sample_ok :: "server \<Rightarrow> bool" where
  "sample_ok s \<longleftrightarrow> last_arrival (metrics s) = None \<or> last_timestamp (metrics s) \<noteq> None"

text \<open>
  Example inputs: the address of the source's \<^verbatim>\<open>__main__\<close> blocks, and the server after
  packet 1 has arrived at time 0 ahead of packet 0.
\<close>

definition ex_addr :: addr where
  "ex_addr = (''127.0.0.1'', 65432)"

definition ex_gap :: server where
  "ex_gap = (case handle_reliable_channel 1 ''b'' ex_addr 0 (server_init 0) of
               Inr s \<Rightarrow> s | Inl e \<Rightarrow> server_init 0)"

text \<open>
  The rule of claim C4 for one tracked packet, to be compared with the loop of
  \<^verbatim>\<open>_retransmit_checker\<close>: what the pass leaves of the entry in the store, and what it
  sends again for it.
\<close>

definition spec_entry_after :: "real \<Rightarrow> nat \<times> tracked \<Rightarrow> (nat \<times> tracked) list" where
  "spec_entry_after current item =
     (let elapsed = current - send_time (snd item) in
      if elapsed > TIMEOUT \<and> elapsed > MAX_THRESHOLD then []
      else if elapsed > TIMEOUT
      then [(fst item, (snd item)\<lparr>send_time := current, retries := retries (snd item) + 1\<rparr>)]
      else [item])"

definition spec_entry_resent :: "real \<Rightarrow> nat \<times> tracked \<Rightarrow> byte list list" where
  "spec_entry_resent current item =
     (let elapsed = current - send_time (snd item) in
      if elapsed > TIMEOUT \<and> \<not> elapsed > MAX_THRESHOLD then [packet (snd item)] else [])"

text \<open>
  The update rule of the jitter estimate in the words of the specification,
  \<open>J \<leftarrow> J + (|D| - J) / 16\<close>, and the feeding of a list of samples (header timestamp,
  arrival time) to \<^verbatim>\<open>_calculate_jitter\<close>.
\<close>

definition spec_jitter_step :: "real \<Rightarrow> real \<Rightarrow> real" where
  "spec_jitter_step J D = J + (\<bar>D\<bar> - J) / 16"

text \<open>
  A header timestamp counts milliseconds and the clock readings are in seconds;
  \<^verbatim>\<open>_calculate_jitter\<close> divides the difference of two timestamps by \<^verbatim>\<open>1000.0\<close>, which
  is the difference of the two timestamps read as times in seconds.
\<close>

definition timestamp_seconds :: "nat \<Rightarrow> real" where
  "timestamp_seconds timestamp = real timestamp / 1000"

fun feed_jitter :: "(nat \<times> real) list \<Rightarrow> server \<Rightarrow> error + server" where
  "feed_jitter [] s = Inr s"
| "feed_jitter (sample # rest) s =
     (case calculate_jitter (fst sample) (snd sample) s of
        Inl e \<Rightarrow> Inl e
      | Inr s' \<Rightarrow> feed_jitter rest s')"

text \<open>
  Example inputs: an encoder that is UTF-8 on ASCII text, a client with three tracked
  packets, and a server that has seen one jitter sample.
\<close>

definition ex_encode :: "string \<Rightarrow> byte list" where
  "ex_encode payload = map of_char payload"

definition ex_client :: client where
  "ex_client = (client_init ex_addr)
     \<lparr>c_seqno := 3,
      c_pending_packets :=
        [(0, \<lparr>packet = [0], send_time = 0, retries = 0\<rparr>),
         (1, \<lparr>packet = [1], send_time = 15 / 100, retries = 0\<rparr>),
         (2, \<lparr>packet = [2], send_time = 25 / 100, retries = 1\<rparr>)]\<rparr>"

definition ex_sample :: server where
  "ex_sample = (case calculate_jitter 0 0 (server_init 0) of
                  Inr s \<Rightarrow> s | Inl e \<Rightarrow> server_init 0)"

text \<open>
  A sequence of reliable sends, as the \<^verbatim>\<open>__main__\<close> block of the client makes them: each item
  is a payload with the two clock readings of its call of \<^verbatim>\<open>send_message\<close>.
\<close>

fun send_reliable_all ::
    "(string \<Rightarrow> byte list) \<Rightarrow> (string \<times> real \<times> real) list \<Rightarrow> client \<Rightarrow> error + client" where
  "send_reliable_all encode [] c = Inr c"
| "send_reliable_all encode (x # rest) c =
     (case send_message encode (fst x) True (fst (snd x)) (snd (snd x)) c of
        Inl e \<Rightarrow> Inl e
      | Inr r \<Rightarrow> send_reliable_all encode rest (fst r))"

text \<open>
  Notions for the proof of in-order delivery: the datagram \<open>d\<close> is a reliable packet with
  sequence number \<open>i\<close> and payload \<open>p\<close>; the sequence numbers of the reliable packets
  among a list of steps; and the state of a receiver to which exactly the packets of
  \<open>A\<close>, taken from the payloads \<open>ps\<close>, have arrived and which has skipped nothing.
\<close>

definition carries :: "(byte list \<Rightarrow> string option) \<Rightarrow> byte list \<Rightarrow> nat \<Rightarrow> string \<Rightarrow> bool" where
  "carries decode d i p \<longleftrightarrow>
     HEADER_SIZE \<le> length d
     \<and> (\<exists>ts. unpack_header (take HEADER_SIZE d) = Inr (0, i, ts))
     \<and> decode (drop HEADER_SIZE d) = Some p"

fun event_seq :: "(byte list \<Rightarrow> string option) \<Rightarrow> event \<Rightarrow> nat set" where
  "event_seq decode (Datagram d a t1 t2) = {i. \<exists>p. carries decode d i p}"
| "event_seq decode ReceiveReliable = {}"
| "event_seq decode ReceiveUnreliable = {}"
| "event_seq decode (TimeoutCheck now) = {}"

definition seqs :: "(byte list \<Rightarrow> string option) \<Rightarrow> event list \<Rightarrow> nat set" where
  "seqs decode es = (\<Union>e \<in> set es. event_seq decode e)"

definition good :: "string list \<Rightarrow> nat set \<Rightarrow> server \<Rightarrow> bool" where
  "good ps A s \<longleftrightarrow>
     sample_ok s
     \<and> next_expected_reliable s \<le> length ps
     \<and> A \<subseteq> {..<length ps}
     \<and> {..<next_expected_reliable s} \<subseteq> A
     \<and> (\<forall>k. reliable_buffer s k =
              (if next_expected_reliable s \<le> k \<and> k \<in> A then Some (ps ! k) else None))"

text \<open>
  Example inputs: a decoder that is UTF-8 on ASCII bytes, two reliable sends with their
  datagrams, a run in which the datagrams arrive in the opposite order, and a run in
  which the first datagram arrives after its gap wait has timed out.
\<close>

definition ex_decode :: "byte list \<Rightarrow> string option" where
  "ex_decode bs =
     (if list_all (\<lambda>b. b < 128) bs then Some (map (\<lambda>b. char_of (unat b)) bs) else None)"

definition ex_sends :: "(string \<times> real \<times> real) list" where
  "ex_sends = [(''a'', 0, 0), (''b'', 0, 0)]"

definition ex_d0 :: "byte list" where
  "ex_d0 = (le_bytes 1 0 @ le_bytes 8 0 @ le_bytes 8 0) @ ex_encode ''a''"

definition ex_d1 :: "byte list" where
  "ex_d1 = (le_bytes 1 0 @ le_bytes 8 1 @ le_bytes 8 0) @ ex_encode ''b''"

definition ex_reordered :: "event list" where
  "ex_reordered = [Datagram ex_d1 ex_addr 0 0, ReceiveReliable, Datagram ex_d0 ex_addr 0 0]"

definition ex_late :: "event list" where
  "ex_late = [Datagram ex_d1 ex_addr 0 0, TimeoutCheck 1, Datagram ex_d0 ex_addr 2 2]"

section \<open>Results on the wire format and the server\<close>

lemma length_le_bytes [simp]: "length (le_bytes k n) = k"
  by (induction k arbitrary: n) auto

lemma le_nat_le_bytes: "le_nat (le_bytes k n) = n mod 256 ^ k"
proof (induction k arbitrary: n)
  case 0
  then show ?case by simp
next
  case (Suc k)
  have "le_nat (le_bytes (Suc k) n) = n mod 256 + 256 * ((n div 256) mod 256 ^ k)"
    by (simp add: Suc unat_of_nat)
  also have "\<dots> = n mod 256 ^ Suc k"
    by (simp add: mod_mult2_eq)
  finally show ?case .
qed

lemma le_bytes_le_nat: "le_bytes (length bs) (le_nat bs) = bs"
proof (induction bs)
  case Nil
  then show ?case by simp
next
  case (Cons b bs)
  have "unat b < 256" using unsigned_less [of b] by simp
  then show ?case using Cons by simp
qed

lemma le_nat_less: "le_nat bs < 256 ^ length bs"
proof (induction bs)
  case Nil
  then show ?case by simp
next
  case (Cons b bs)
  have "unat b < 256" using unsigned_less [of b] by simp
  moreover have "le_nat bs + 1 \<le> 256 ^ length bs" using Cons by simp
  then have "256 * (le_nat bs + 1) \<le> 256 * 256 ^ length bs" by (rule mult_le_mono2)
  ultimately show ?case by simp
qed

lemma mark_gaps_frame [simp]:
  "reliable_buffer (mark_gaps t ks s) = reliable_buffer s"
  "next_expected_reliable (mark_gaps t ks s) = next_expected_reliable s"
  "gap_start_time (mark_gaps t ks s) = gap_start_time s"
  "unreliable_queue (mark_gaps t ks s) = unreliable_queue s"
  "metrics (mark_gaps t ks s) = metrics s"
  "socket_out (mark_gaps t ks s) = socket_out s"
  by (induction ks arbitrary: s) auto

lemma pending_mark_gaps:
  "pending_packets (mark_gaps t ks s) k =
     (if k \<in> set ks \<and> pending_packets s k = None \<and> reliable_buffer s k = None
      then Some t else pending_packets s k)"
  by (induction ks arbitrary: s) auto

lemma gap_disjoint_iff:
  "gap_disjoint s \<longleftrightarrow> (\<forall>k. reliable_buffer s k = None \<or> pending_packets s k = None)"
proof
  assume "gap_disjoint s"
  then have "\<And>k. \<not> (k \<in> dom (reliable_buffer s) \<and> k \<in> dom (pending_packets s))"
    unfolding gap_disjoint_def by blast
  then show "\<forall>k. reliable_buffer s k = None \<or> pending_packets s k = None"
    by (simp add: dom_def)
next
  assume h: "\<forall>k. reliable_buffer s k = None \<or> pending_packets s k = None"
  have "k \<notin> dom (reliable_buffer s) \<inter> dom (pending_packets s)" for k
    using h [rule_format, of k] by (auto simp: dom_def)
  then show "gap_disjoint s"
    unfolding gap_disjoint_def by blast
qed

lemma pack_ack_255: "seqno < 2 ^ 64 \<Longrightarrow> pack_ack 255 seqno = Inr (255 # le_bytes 8 seqno)"
  by (simp add: pack_ack_def)

lemma handle_reliable_cursor:
  "handle_reliable_channel seqno p a now s = Inr s' \<Longrightarrow>
     next_expected_reliable s' = next_expected_reliable s \<and> metrics s' = metrics s
     \<and> unreliable_queue s' = unreliable_queue s \<and> gap_start_time s' = gap_start_time s"
  by (auto simp: handle_reliable_channel_def Let_def split: sum.splits if_splits)

lemma handle_reliable_disjoint:
  assumes "gap_disjoint s" and "handle_reliable_channel seqno p a now s = Inr s'"
  shows "gap_disjoint s'"
proof -
  have d: "\<And>k. reliable_buffer s k = None \<or> pending_packets s k = None"
    using assms(1) by (simp add: gap_disjoint_iff)
  show ?thesis
    unfolding gap_disjoint_iff
  proof
    fix k
    show "reliable_buffer s' k = None \<or> pending_packets s' k = None"
      using assms(2) d [of k]
      by (auto simp: handle_reliable_channel_def Let_def pending_mark_gaps
          split: sum.splits if_splits)
  qed
qed

lemma receive_reliable_disjoint:
  "gap_disjoint s \<Longrightarrow> gap_disjoint (snd (receive_reliable s))"
  by (auto simp: receive_reliable_def Let_def gap_disjoint_iff split: option.splits)

lemma timeout_checker_disjoint:
  "gap_disjoint s \<Longrightarrow> gap_disjoint (timeout_checker now s)"
  by (auto simp: timeout_checker_def Let_def gap_disjoint_iff split: option.splits)

lemma calculate_jitter_metrics:
  "calculate_jitter ts arr s = Inr s' \<Longrightarrow>
     \<exists>m. s' = s\<lparr>metrics := m\<rparr> \<and> packets_skipped m = packets_skipped (metrics s)"
  by (auto simp: calculate_jitter_def Let_def split: option.splits)

lemma packet_receiver_rule:
  assumes "P s"
    and "\<And>s m. P s \<Longrightarrow> packets_skipped m = packets_skipped (metrics s)
           \<Longrightarrow> P (s\<lparr>metrics := m\<rparr>)"
    and "\<And>s seqno p. P s \<Longrightarrow> P (handle_unreliable_channel seqno p s)"
    and "\<And>s seqno p s'. P s \<Longrightarrow> handle_reliable_channel seqno p a now s = Inr s' \<Longrightarrow> P s'"
  shows "P (packet_receiver decode data a arr now s)"
proof -
  have jit: "P s3" if "P s2" and "calculate_jitter ts arr s2 = Inr s3" for ts s2 s3
    using calculate_jitter_metrics [OF that(2)] assms(2) [OF that(1)] by auto
  have base: "P (s\<lparr>metrics := m\<rparr>)" if "packets_skipped m = packets_skipped (metrics s)" for m
    using assms(1) that by (rule assms(2))
  have jit': "P s3"
    if "packets_skipped m = packets_skipped (metrics s)"
      and "calculate_jitter ts arr (s\<lparr>metrics := m\<rparr>) = Inr s3" for m ts s3
    using base [OF that(1)] that(2) by (rule jit)
  have rel: "P s4"
    if "packets_skipped m = packets_skipped (metrics s)"
      and "calculate_jitter ts arr (s\<lparr>metrics := m\<rparr>) = Inr s3"
      and "handle_reliable_channel seqno p a now s3 = Inr s4" for m ts s3 seqno p s4
    using jit' [OF that(1,2)] that(3) by (rule assms(4))
  show ?thesis
    unfolding packet_receiver_def Let_def
    apply (auto split: sum.splits option.splits prod.splits simp: assms(1) assms(3) base)
     apply (erule jit' [rotated])
     apply simp
    apply (erule rel [rotated])
     apply assumption
    apply simp
    done
qed

lemma packet_receiver_disjoint:
  "gap_disjoint s \<Longrightarrow> gap_disjoint (packet_receiver decode data a arr now s)"
proof (rule packet_receiver_rule)
  fix s m assume "gap_disjoint s" then show "gap_disjoint (s\<lparr>metrics := m\<rparr>)"
    by (simp add: gap_disjoint_def)
next
  fix s seqno p assume "gap_disjoint s" then show "gap_disjoint (handle_unreliable_channel seqno p s)"
    by (simp add: gap_disjoint_def handle_unreliable_channel_def)
qed (auto intro: handle_reliable_disjoint)

lemma server_step_disjoint:
  "gap_disjoint s \<Longrightarrow> gap_disjoint (snd (server_step decode e s))"
  by (cases e)
    (simp_all add: packet_receiver_disjoint receive_reliable_disjoint timeout_checker_disjoint,
      simp add: receive_unreliable_def gap_disjoint_def split: list.splits)

lemma run_disjoint: "gap_disjoint s \<Longrightarrow> gap_disjoint (run decode es s)"
  by (induction es arbitrary: s) (simp_all add: server_step_disjoint)

lemma init_disjoint: "gap_disjoint (server_init t0)"
  by (simp add: gap_disjoint_def server_init_def)

lemma reachable_disjoint: "reachable decode s \<Longrightarrow> gap_disjoint s"
  unfolding reachable_def using run_disjoint [OF init_disjoint] by blast

text \<open>
  Claim C10. No sequence number is at once a key of the reorder buffer and a key of the
  gap-wait map: the two key sets are disjoint in every state the server reaches from
  \<open>server_init\<close>, and from any state in which they are disjoint the arrival of a reliable
  packet, a delivery, an iteration of the timeout thread and every other step of the
  server keep them disjoint.
\<close>
theorem reorder_gap_disjoint:
  "gap_disjoint (run decode es (server_init t0))
   \<and> (gap_disjoint s \<longrightarrow>
        (\<forall>seqno payload a now s'. handle_reliable_channel seqno payload a now s = Inr s'
            \<longrightarrow> gap_disjoint s')
        \<and> gap_disjoint (snd (receive_reliable s))
        \<and> gap_disjoint (timeout_checker now s)
        \<and> gap_disjoint (snd (server_step decode e s)))"
  using run_disjoint [OF init_disjoint] handle_reliable_disjoint receive_reliable_disjoint
    timeout_checker_disjoint server_step_disjoint
  by blast

lemma packet_receiver_cursor:
  "next_expected_reliable (packet_receiver decode data a arr now s) = next_expected_reliable s"
  by (rule packet_receiver_rule)
    (auto simp: handle_unreliable_channel_def dest: handle_reliable_cursor)

lemma receive_reliable_eq:
  "receive_reliable s =
     (case reliable_buffer s (next_expected_reliable s) of
        None \<Rightarrow> (None, s)
      | Some payload \<Rightarrow>
          (Some (next_expected_reliable s, payload),
           s\<lparr>reliable_buffer := (reliable_buffer s)(next_expected_reliable s := None),
             next_expected_reliable := next_expected_reliable s + 1,
             gap_start_time := None,
             metrics := (metrics s)\<lparr>packets_delivered_reliable :=
                          packets_delivered_reliable (metrics s) + 1\<rparr>\<rparr>))"
  by (simp add: receive_reliable_def Let_def split: option.splits)

lemma timeout_checker_eq:
  "timeout_checker now s =
     (case pending_packets s (next_expected_reliable s) of
        None \<Rightarrow> s
      | Some start \<Rightarrow>
          if now - start > TIMEOUT_THRESHOLD
          then s\<lparr>pending_packets := (pending_packets s)(next_expected_reliable s := None),
                 metrics := (metrics s)\<lparr>packets_skipped := packets_skipped (metrics s) + 1\<rparr>,
                 next_expected_reliable := next_expected_reliable s + 1\<rparr>
          else s)"
  by (simp add: timeout_checker_def Let_def split: option.splits)

lemma server_step_cursor:
  "next_expected_reliable (snd (server_step decode e s)) =
     next_expected_reliable s +
       (case e of
          ReceiveReliable \<Rightarrow> if delivers s then 1 else 0
        | TimeoutCheck now \<Rightarrow> if skips now s then 1 else 0
        | _ \<Rightarrow> 0)"
  by (cases e)
    (auto simp: packet_receiver_cursor receive_reliable_eq timeout_checker_eq delivers_def
      skips_def receive_unreliable_def split: option.splits list.splits)

lemma server_step_mono:
  "next_expected_reliable s \<le> next_expected_reliable (snd (server_step decode e s))"
  by (simp add: server_step_cursor)

lemma run_mono: "next_expected_reliable s \<le> next_expected_reliable (run decode es s)"
proof (induction es arbitrary: s)
  case Nil
  show ?case by simp
next
  case (Cons e es)
  have "next_expected_reliable s \<le> next_expected_reliable (snd (server_step decode e s))"
    by (rule server_step_mono)
  also have "\<dots> \<le> next_expected_reliable (run decode (e # es) s)"
    using Cons by simp
  finally show ?case .
qed

text \<open>
  Claim C2. A step of the server adds 1 to \<open>next_expected_reliable\<close> when it is a call of
  \<^verbatim>\<open>receive_reliable\<close> that returns a packet or an iteration of the timeout thread that
  counts a skipped packet, and leaves it as it is in every other case; so the cursor
  never decreases along a run.
\<close>
theorem cursor_steps:
  "next_expected_reliable (snd (server_step decode e s)) =
     next_expected_reliable s +
       (case e of
          ReceiveReliable \<Rightarrow> if delivers s then 1 else 0
        | TimeoutCheck now \<Rightarrow> if skips now s then 1 else 0
        | _ \<Rightarrow> 0)
   \<and> next_expected_reliable s \<le> next_expected_reliable (run decode es s)"
  using server_step_cursor run_mono by blast

lemma reliable_outputs_ge:
  "(seqno, p) \<in> set (reliable_outputs decode es s) \<Longrightarrow> next_expected_reliable s \<le> seqno"
proof (induction es arbitrary: s)
  case Nil
  then show ?case by simp
next
  case (Cons e es)
  let ?s' = "snd (server_step decode e s)"
  from Cons.prems consider
      (head) "e = ReceiveReliable" "fst (server_step decode e s) = Some (seqno, p)"
    | (tail) "(seqno, p) \<in> set (reliable_outputs decode es ?s')"
    by (auto split: event.splits option.splits)
  then show ?case
  proof cases
    case head
    then show ?thesis by (auto simp: receive_reliable_eq split: option.splits)
  next
    case tail
    then have "next_expected_reliable ?s' \<le> seqno" by (rule Cons.IH)
    with server_step_mono [of s decode e] show ?thesis by simp
  qed
qed

text \<open>
  Claim C8. When the reorder buffer holds an entry for the cursor, \<^verbatim>\<open>receive_reliable\<close>
  returns the cursor's value with the entry's payload, removes the entry, advances the
  cursor by 1 and resets \<^verbatim>\<open>gap_start_time\<close>; the gap-wait map, which the function does not
  touch, has no entry for the delivered slot, since its keys are disjoint from the
  buffer's (\<open>reachable_disjoint\<close>: so it is in every reachable state). When the buffer
  holds no entry for the cursor, the call returns \<^verbatim>\<open>None\<close> and the state is unchanged.
\<close>
theorem receive_reliable_poll:
  "gap_disjoint s \<Longrightarrow>
     (case reliable_buffer s (next_expected_reliable s) of
        Some payload \<Rightarrow>
          fst (receive_reliable s) = Some (next_expected_reliable s, payload)
          \<and> reliable_buffer (snd (receive_reliable s)) =
              (reliable_buffer s)(next_expected_reliable s := None)
          \<and> next_expected_reliable (snd (receive_reliable s)) = next_expected_reliable s + 1
          \<and> gap_start_time (snd (receive_reliable s)) = None
          \<and> pending_packets (snd (receive_reliable s)) (next_expected_reliable s) = None
          \<and> pending_packets (snd (receive_reliable s)) = pending_packets s
          \<and> unreliable_queue (snd (receive_reliable s)) = unreliable_queue s
          \<and> socket_out (snd (receive_reliable s)) = socket_out s
      | None \<Rightarrow> receive_reliable s = (None, s))"
proof -
  assume "gap_disjoint s"
  then have "reliable_buffer s (next_expected_reliable s) = None
      \<or> pending_packets s (next_expected_reliable s) = None"
    by (simp add: gap_disjoint_iff)
  then show ?thesis
    by (auto simp: receive_reliable_eq split: option.splits)
qed

lemma unpack_ack_ack: "seqno < 2 ^ 64 \<Longrightarrow> unpack_ack (255 # le_bytes 8 seqno) = Inr (255, seqno)"
  by (simp add: unpack_ack_def ACK_SIZE_def le_nat_le_bytes)

lemma handle_reliable_socket:
  assumes "seqno < 2 ^ 64"
  shows "\<exists>s'. handle_reliable_channel seqno p a now s = Inr s'
           \<and> socket_out s' = socket_out s @ [(255 # le_bytes 8 seqno, a)]"
  using assms
  by (simp add: handle_reliable_channel_def Let_def pack_ack_255)

lemma unpack_header_seq_less:
  "unpack_header h = Inr (ch, seqno, ts) \<Longrightarrow> seqno < 2 ^ 64"
proof -
  assume "unpack_header h = Inr (ch, seqno, ts)"
  then have seqno: "seqno = le_nat (take 8 (drop 1 h))" and len: "length h = HEADER_SIZE"
    by (auto simp: unpack_header_def split: if_splits)
  have "le_nat (take 8 (drop 1 h)) < 256 ^ length (take 8 (drop 1 h))"
    by (rule le_nat_less)
  also have "length (take 8 (drop 1 h)) = 8"
    using len by (simp add: HEADER_SIZE_def)
  finally show ?thesis using seqno by simp
qed

lemma carries_unique: "carries decode d i p \<Longrightarrow> carries decode d j q \<Longrightarrow> i = j \<and> p = q"
  by (auto simp: carries_def)

lemma calculate_jitter_ok:
  assumes "sample_ok s"
  shows "\<exists>m. calculate_jitter ts arr s = Inr (s\<lparr>metrics := m\<rparr>)
            \<and> last_timestamp m \<noteq> None
            \<and> packets_skipped m = packets_skipped (metrics s)"
  using assms
  by (auto simp: sample_ok_def calculate_jitter_def Let_def split: option.splits)

lemma handle_reliable_effect:
  assumes "handle_reliable_channel i p a now s = Inr s'"
  shows "reliable_buffer s' =
           (if i < next_expected_reliable s \<or> reliable_buffer s i \<noteq> None
            then reliable_buffer s else (reliable_buffer s)(i \<mapsto> p))
         \<and> next_expected_reliable s' = next_expected_reliable s
         \<and> metrics s' = metrics s"
  using assms
  by (auto simp: handle_reliable_channel_def Let_def split: sum.splits if_splits)

lemma packet_receiver_carries:
  assumes "carries decode d i p" and "sample_ok s"
  shows "reliable_buffer (packet_receiver decode d a arr now s) =
           (if i < next_expected_reliable s \<or> reliable_buffer s i \<noteq> None
            then reliable_buffer s else (reliable_buffer s)(i \<mapsto> p))
         \<and> next_expected_reliable (packet_receiver decode d a arr now s)
             = next_expected_reliable s
         \<and> packets_skipped (metrics (packet_receiver decode d a arr now s))
             = packets_skipped (metrics s)
         \<and> sample_ok (packet_receiver decode d a arr now s)"
proof -
  from assms(1) obtain ts where
    len: "\<not> length d < HEADER_SIZE"
    and hdr: "unpack_header (take HEADER_SIZE d) = Inr (0, i, ts)"
    and dec: "decode (drop HEADER_SIZE d) = Some p"
    by (auto simp: carries_def)
  have i: "i < 2 ^ 64" using hdr by (rule unpack_header_seq_less)
  let ?s2 = "s\<lparr>metrics := (metrics s)
               \<lparr>packets_received_reliable := packets_received_reliable (metrics s) + 1,
                bytes_received := bytes_received (metrics s) + length p\<rparr>\<rparr>"
  have "sample_ok ?s2" using assms(2) by (simp add: sample_ok_def)
  from calculate_jitter_ok [OF this, of ts arr] obtain m where
    jit: "calculate_jitter ts arr ?s2 = Inr (?s2\<lparr>metrics := m\<rparr>)"
    and m: "last_timestamp m \<noteq> None" "packets_skipped m = packets_skipped (metrics s)"
    by auto
  let ?s3 = "?s2\<lparr>metrics := m\<rparr>"
  from handle_reliable_socket [OF i, of p a now ?s3] obtain s4 where
    h: "handle_reliable_channel i p a now ?s3 = Inr s4" by blast
  have eq: "packet_receiver decode d a arr now s = s4"
    using len hdr dec jit h by (simp add: packet_receiver_def Let_def)
  from handle_reliable_effect [OF h] m show ?thesis
    unfolding eq by (simp add: sample_ok_def)
qed

lemma handle_reliable_pending:
  assumes "handle_reliable_channel i p a now s = Inr s'"
  shows "pending_packets s' k =
     (if i < next_expected_reliable s \<or> reliable_buffer s i \<noteq> None then pending_packets s k
      else if k = i then None
      else if next_expected_reliable s \<le> k \<and> k < i
              \<and> pending_packets s k = None \<and> reliable_buffer s k = None
      then Some now
      else pending_packets s k)"
  using assms
  by (auto simp: handle_reliable_channel_def Let_def pending_mark_gaps
      split: sum.splits if_splits)

lemma packet_receiver_pending:
  assumes "carries decode d i p" and "sample_ok s"
  shows "pending_packets (packet_receiver decode d a arr now s) k =
     (if i < next_expected_reliable s \<or> reliable_buffer s i \<noteq> None then pending_packets s k
      else if k = i then None
      else if next_expected_reliable s \<le> k \<and> k < i
              \<and> pending_packets s k = None \<and> reliable_buffer s k = None
      then Some now
      else pending_packets s k)"
proof -
  from assms(1) obtain ts where
    len: "\<not> length d < HEADER_SIZE"
    and hdr: "unpack_header (take HEADER_SIZE d) = Inr (0, i, ts)"
    and dec: "decode (drop HEADER_SIZE d) = Some p"
    by (auto simp: carries_def)
  have i: "i < 2 ^ 64" using hdr by (rule unpack_header_seq_less)
  let ?s2 = "s\<lparr>metrics := (metrics s)
               \<lparr>packets_received_reliable := packets_received_reliable (metrics s) + 1,
                bytes_received := bytes_received (metrics s) + length p\<rparr>\<rparr>"
  have "sample_ok ?s2" using assms(2) by (simp add: sample_ok_def)
  from calculate_jitter_ok [OF this, of ts arr] obtain m where
    jit: "calculate_jitter ts arr ?s2 = Inr (?s2\<lparr>metrics := m\<rparr>)"
    by auto
  let ?s3 = "?s2\<lparr>metrics := m\<rparr>"
  from handle_reliable_socket [OF i, of p a now ?s3] obtain s4 where
    h: "handle_reliable_channel i p a now ?s3 = Inr s4" by blast
  have eq: "packet_receiver decode d a arr now s = s4"
    using len hdr dec jit h by (simp add: packet_receiver_def Let_def)
  from handle_reliable_pending [OF h, of k] show ?thesis
    unfolding eq by simp
qed

lemma packet_receiver_sample_ok:
  assumes "sample_ok s"
  shows "sample_ok (packet_receiver decode d a arr now s)"
proof (cases "length d < HEADER_SIZE")
  case True
  then show ?thesis using assms by (simp add: packet_receiver_def)
next
  case len: False
  show ?thesis
  proof (cases "unpack_header (take HEADER_SIZE d)")
    case (Inl e)
    then show ?thesis using len assms by (simp add: packet_receiver_def)
  next
    case (Inr h)
    obtain ch seqno ts where h: "h = (ch, seqno, ts)" by (cases h)
    show ?thesis
    proof (cases "decode (drop HEADER_SIZE d)")
      case None
      then show ?thesis using len Inr h assms by (simp add: packet_receiver_def)
    next
      case (Some p)
      show ?thesis
      proof (cases "ch = 0")
        case False
        then show ?thesis
          using len Inr h Some assms
          by (simp add: packet_receiver_def handle_unreliable_channel_def sample_ok_def)
      next
        case True
        have "carries decode d seqno p"
          using len Inr h Some True by (simp add: carries_def)
        from packet_receiver_carries [OF this assms] show ?thesis by simp
      qed
    qed
  qed
qed

lemma server_step_sample_ok: "sample_ok s \<Longrightarrow> sample_ok (snd (server_step decode e s))"
proof (cases e)
  case (Datagram d a t1 t2)
  assume "sample_ok s"
  then show ?thesis using Datagram by (simp add: packet_receiver_sample_ok)
qed (auto simp: receive_reliable_eq receive_unreliable_def timeout_checker_eq sample_ok_def
      split: option.splits list.splits)

lemma run_sample_ok: "sample_ok s \<Longrightarrow> sample_ok (run decode es s)"
  by (induction es arbitrary: s) (simp_all add: server_step_sample_ok)

lemma reachable_sample_ok: "reachable decode s \<Longrightarrow> sample_ok s"
proof -
  assume "reachable decode s"
  then obtain t0 es where s: "s = run decode es (server_init t0)"
    unfolding reachable_def by (elim exE)
  have "sample_ok (server_init t0)" by (simp add: sample_ok_def server_init_def)
  then show ?thesis unfolding s by (rule run_sample_ok)
qed

lemma packet_receiver_ack:
  assumes "carries decode d i p" and "sample_ok s"
  shows "socket_out (packet_receiver decode d a arr now s)
           = socket_out s @ [(255 # le_bytes 8 i, a)]"
proof -
  from assms(1) obtain ts where
    len: "\<not> length d < HEADER_SIZE"
    and hdr: "unpack_header (take HEADER_SIZE d) = Inr (0, i, ts)"
    and dec: "decode (drop HEADER_SIZE d) = Some p"
    by (auto simp: carries_def)
  have i: "i < 2 ^ 64" using hdr by (rule unpack_header_seq_less)
  let ?s2 = "s\<lparr>metrics := (metrics s)
               \<lparr>packets_received_reliable := packets_received_reliable (metrics s) + 1,
                bytes_received := bytes_received (metrics s) + length p\<rparr>\<rparr>"
  have "sample_ok ?s2" using assms(2) by (simp add: sample_ok_def)
  from calculate_jitter_ok [OF this, of ts arr] obtain m where
    jit: "calculate_jitter ts arr ?s2 = Inr (?s2\<lparr>metrics := m\<rparr>)"
    by auto
  let ?s3 = "?s2\<lparr>metrics := m\<rparr>"
  from handle_reliable_socket [OF i, of p a now ?s3] obtain s4 where
    h: "handle_reliable_channel i p a now ?s3 = Inr s4"
    and o: "socket_out s4 = socket_out ?s3 @ [(255 # le_bytes 8 i, a)]" by blast
  have eq: "packet_receiver decode d a arr now s = s4"
    using len hdr dec jit h by (simp add: packet_receiver_def Let_def)
  show ?thesis unfolding eq o by simp
qed

text \<open>
  Claim C6. For a sequence number \<open>seqno\<close> of the header's range, whatever the state of the
  receiver (cursor, reorder buffer, gap waits), \<^verbatim>\<open>_handle_reliable_channel\<close> returns
  normally and has appended to the socket's output exactly one datagram for the sender's
  address: byte 255 followed by the eight little-endian bytes of \<open>seqno\<close>, which unpacks as
  the acknowledgment \<open>(255, seqno)\<close>. The same datagram is sent when the receiver thread, in
  any state the server reaches, handles a datagram that is a reliable packet with
  sequence number \<open>seqno\<close> and a payload that decodes.
\<close>
theorem ack_always_sent:
  "seqno < 2 ^ 64 \<Longrightarrow>
     (\<exists>s'. handle_reliable_channel seqno payload client_addr now s = Inr s'
        \<and> socket_out s' = socket_out s @ [(255 # le_bytes 8 seqno, client_addr)])
     \<and> unpack_ack (255 # le_bytes 8 seqno) = Inr (255, seqno)
     \<and> (reachable decode s \<and> carries decode d seqno payload \<longrightarrow>
          socket_out (packet_receiver decode d client_addr arrival_time now s)
            = socket_out s @ [(255 # le_bytes 8 seqno, client_addr)])"
  using handle_reliable_socket [of seqno payload client_addr now s] unpack_ack_ack [of seqno]
    packet_receiver_ack [of decode d seqno payload s client_addr arrival_time now]
    reachable_sample_ok [of decode s]
  by blast

lemma handle_reliable_stale:
  assumes "seqno < next_expected_reliable s" and "handle_reliable_channel seqno p a now s = Inr s'"
  shows "reliable_buffer s' = reliable_buffer s \<and> pending_packets s' = pending_packets s
         \<and> next_expected_reliable s' = next_expected_reliable s"
  using assms
  by (auto simp: handle_reliable_channel_def Let_def split: sum.splits)

lemma packet_receiver_stale:
  assumes "unpack_header (take HEADER_SIZE d) = Inr (0, k, ts)"
    and "k < next_expected_reliable s"
  shows "reliable_buffer (packet_receiver decode d a arr now s) = reliable_buffer s
     \<and> pending_packets (packet_receiver decode d a arr now s) = pending_packets s
     \<and> next_expected_reliable (packet_receiver decode d a arr now s) = next_expected_reliable s"
proof -
  have stale: "reliable_buffer s4 = reliable_buffer s \<and> pending_packets s4 = pending_packets s
      \<and> next_expected_reliable s4 = next_expected_reliable s"
    if j: "calculate_jitter ts arr (s\<lparr>metrics := m\<rparr>) = Inr s3"
      and h: "handle_reliable_channel k p a now s3 = Inr s4" for m s3 s4 p
  proof -
    from calculate_jitter_metrics [OF j] obtain m' where s3: "s3 = s\<lparr>metrics := m'\<rparr>"
      by auto
    have "k < next_expected_reliable s3" using assms(2) s3 by simp
    from handle_reliable_stale [OF this h] show ?thesis using s3 by simp
  qed
  have jit: "reliable_buffer s3 = reliable_buffer s \<and> pending_packets s3 = pending_packets s
      \<and> next_expected_reliable s3 = next_expected_reliable s"
    if j: "calculate_jitter ts arr (s\<lparr>metrics := m\<rparr>) = Inr s3" for m s3
    using calculate_jitter_metrics [OF j] by auto
  show ?thesis
    unfolding packet_receiver_def Let_def using assms(1)
    by (auto split: sum.splits option.splits dest: stale jit)
qed

text \<open>
  Claim C7. Let the timeout thread skip the sequence number \<open>k\<close> under the cursor. After
  any further steps \<open>es\<close> of the server, a reliable packet that carries \<open>k\<close> leaves the
  reorder buffer, the gap-wait map and the cursor as they are, both in
  \<^verbatim>\<open>_handle_reliable_channel\<close> and when the receiver thread handles a datagram with tag 0
  and sequence number \<open>k\<close>; and no call of \<^verbatim>\<open>receive_reliable\<close> among the steps \<open>es\<close>
  returns \<open>k\<close>.
\<close>
theorem skipped_never_delivered:
  assumes "pending_packets s (next_expected_reliable s) = Some start"
    and "now - start > TIMEOUT_THRESHOLD"
  shows "next_expected_reliable (timeout_checker now s) = next_expected_reliable s + 1
     \<and> (\<forall>s' payload a t.
           handle_reliable_channel (next_expected_reliable s) payload a t
               (run decode es (timeout_checker now s)) = Inr s'
           \<longrightarrow> reliable_buffer s' = reliable_buffer (run decode es (timeout_checker now s))
               \<and> pending_packets s' = pending_packets (run decode es (timeout_checker now s))
               \<and> next_expected_reliable s' =
                   next_expected_reliable (run decode es (timeout_checker now s)))
     \<and> (\<forall>d ts a t1 t2.
           unpack_header (take HEADER_SIZE d) = Inr (0, next_expected_reliable s, ts)
           \<longrightarrow> reliable_buffer
                 (packet_receiver decode d a t1 t2 (run decode es (timeout_checker now s)))
                 = reliable_buffer (run decode es (timeout_checker now s))
               \<and> pending_packets
                   (packet_receiver decode d a t1 t2 (run decode es (timeout_checker now s)))
                 = pending_packets (run decode es (timeout_checker now s))
               \<and> next_expected_reliable
                   (packet_receiver decode d a t1 t2 (run decode es (timeout_checker now s)))
                 = next_expected_reliable (run decode es (timeout_checker now s)))
     \<and> (\<forall>r \<in> set (reliable_outputs decode es (timeout_checker now s)).
           fst r \<noteq> next_expected_reliable s)"
proof -
  let ?k = "next_expected_reliable s"
  let ?s1 = "timeout_checker now s"
  have c1: "next_expected_reliable ?s1 = ?k + 1"
    using assms by (simp add: timeout_checker_eq)
  have "next_expected_reliable ?s1 \<le> next_expected_reliable (run decode es ?s1)"
    by (rule run_mono)
  with c1 have lt: "?k < next_expected_reliable (run decode es ?s1)" by simp
  have out: "fst r \<noteq> ?k" if "r \<in> set (reliable_outputs decode es ?s1)" for r
  proof -
    obtain seqno p where r: "r = (seqno, p)" by (cases r)
    with that have "next_expected_reliable ?s1 \<le> seqno" by (auto dest: reliable_outputs_ge)
    with c1 r show ?thesis by simp
  qed
  have dg: "reliable_buffer (packet_receiver decode d a t1 t2 (run decode es ?s1))
        = reliable_buffer (run decode es ?s1)
      \<and> pending_packets (packet_receiver decode d a t1 t2 (run decode es ?s1))
        = pending_packets (run decode es ?s1)
      \<and> next_expected_reliable (packet_receiver decode d a t1 t2 (run decode es ?s1))
        = next_expected_reliable (run decode es ?s1)"
    if "unpack_header (take HEADER_SIZE d) = Inr (0, ?k, ts)" for d ts a t1 t2
    using that lt by (rule packet_receiver_stale)
  show ?thesis
    using c1 out handle_reliable_stale [OF lt] dg by blast
qed

lemma ex_gap_eq:
  "ex_gap = (server_init 0)
     \<lparr>reliable_buffer := [1 \<mapsto> ''b''], pending_packets := [0 \<mapsto> 0],
      socket_out := [(255 # le_bytes 8 1, ex_addr)]\<rparr>"
  by (simp add: ex_gap_def handle_reliable_channel_def pack_ack_def Let_def server_init_def)

lemma ex_gap_fields:
  "next_expected_reliable ex_gap = 0"
  "reliable_buffer ex_gap = [1 \<mapsto> ''b'']"
  "pending_packets ex_gap = [0 \<mapsto> 0]"
  "packets_skipped (metrics ex_gap) = 0"
  by (simp_all add: ex_gap_eq server_init_def)

lemma threshold_1: "(1::real) - 0 > TIMEOUT_THRESHOLD"
  by (simp add: TIMEOUT_THRESHOLD_def)

lemma ex_skip_fields:
  "next_expected_reliable (timeout_checker 1 ex_gap) = 1"
  "reliable_buffer (timeout_checker 1 ex_gap) = [1 \<mapsto> ''b'']"
  "pending_packets (timeout_checker 1 ex_gap) = Map.empty"
  "packets_skipped (metrics (timeout_checker 1 ex_gap)) = 1"
  by (simp_all add: timeout_checker_eq ex_gap_fields threshold_1 [simplified])

text \<open>Packet 0 is skipped; the next call of \<^verbatim>\<open>receive_reliable\<close> returns packet 1.\<close>
theorem skipped_never_delivered_witness:
  "pending_packets ex_gap (next_expected_reliable ex_gap) = Some 0
   \<and> (1::real) - 0 > TIMEOUT_THRESHOLD
   \<and> next_expected_reliable (timeout_checker 1 ex_gap) = 1
   \<and> reliable_outputs (\<lambda>bs. None) [ReceiveReliable] (timeout_checker 1 ex_gap) = [(1, ''b'')]
   \<and> fst (1::nat, ''b'') \<noteq> next_expected_reliable ex_gap"
proof -
  have h1: "pending_packets ex_gap (next_expected_reliable ex_gap) = Some 0"
    by (simp add: ex_gap_fields)
  have out: "reliable_outputs (\<lambda>bs. None) [ReceiveReliable] (timeout_checker 1 ex_gap) = [(1, ''b'')]"
    by (simp add: receive_reliable_eq ex_skip_fields)
  show ?thesis
    using skipped_never_delivered [OF h1 threshold_1, of "\<lambda>bs. None" "[ReceiveReliable]"] h1 out
    by (simp add: TIMEOUT_THRESHOLD_def ex_gap_fields)
qed

text \<open>A skip moves the cursor from 0 to 1.\<close>
theorem cursor_steps_witness:
  "next_expected_reliable (snd (server_step (\<lambda>bs. None) (TimeoutCheck 1) ex_gap)) = 1
   \<and> skips 1 ex_gap
   \<and> next_expected_reliable ex_gap = 0
   \<and> next_expected_reliable ex_gap \<le> next_expected_reliable (run (\<lambda>bs. None) [TimeoutCheck 1, ReceiveReliable] ex_gap)"
  using cursor_steps [of "\<lambda>bs. None" "TimeoutCheck 1" ex_gap "[TimeoutCheck 1, ReceiveReliable]"]
  by (simp add: skips_def ex_skip_fields ex_gap_fields)

lemma ex_gap_disjoint: "gap_disjoint ex_gap"
  by (simp add: gap_disjoint_def ex_gap_fields)

text \<open>One call that delivers packet 1 after the skip of packet 0, and one that returns \<^verbatim>\<open>None\<close>.\<close>
theorem receive_reliable_poll_witness:
  "gap_disjoint (timeout_checker 1 ex_gap)
   \<and> fst (receive_reliable (timeout_checker 1 ex_gap)) = Some (1, ''b'')
   \<and> next_expected_reliable (snd (receive_reliable (timeout_checker 1 ex_gap))) = 2
   \<and> gap_disjoint ex_gap
   \<and> receive_reliable ex_gap = (None, ex_gap)"
  using receive_reliable_poll [of "timeout_checker 1 ex_gap"] receive_reliable_poll [of ex_gap]
    timeout_checker_disjoint [OF ex_gap_disjoint, of 1] ex_gap_disjoint
  by (simp add: ex_skip_fields ex_gap_fields)

text \<open>The invariant at the state with packet 1 buffered and packet 0 awaited.\<close>
theorem reorder_gap_disjoint_witness:
  "gap_disjoint ex_gap
   \<and> gap_disjoint (snd (receive_reliable ex_gap))
   \<and> gap_disjoint (timeout_checker 1 ex_gap)
   \<and> gap_disjoint (run (\<lambda>bs. None) [ReceiveReliable] (server_init 0))"
  using reorder_gap_disjoint [of "\<lambda>bs. None" "[ReceiveReliable]" 0 ex_gap 1 ReceiveReliable]
    ex_gap_disjoint
  by simp

section \<open>Results on the client and the jitter estimate\<close>

lemma unpack_pack_header:
  assumes "ch < 256" "seqno < 2 ^ 64" "ts < 2 ^ 64"
  shows "unpack_header (take HEADER_SIZE ((le_bytes 1 ch @ le_bytes 8 seqno @ le_bytes 8 ts) @ body))
           = Inr (ch, seqno, ts)"
  using assms
  by (simp add: unpack_header_def HEADER_SIZE_def le_nat_le_bytes del: le_bytes.simps)

lemma drop_header:
  "drop HEADER_SIZE ((le_bytes 1 ch @ le_bytes 8 seqno @ le_bytes 8 ts) @ body) = body"
  by (simp add: HEADER_SIZE_def del: le_bytes.simps)

lemma send_message_eq:
  assumes "c_seqno c < 2 ^ 64" and "0 \<le> py_int (t_stamp * 1000)"
    and "py_int (t_stamp * 1000) < 2 ^ 64"
  shows "send_message encode payload isReliable t_stamp t_sent c =
     (let pkt = (le_bytes 1 (if isReliable then 0 else 1) @ le_bytes 8 (c_seqno c)
                   @ le_bytes 8 (nat (py_int (t_stamp * 1000)))) @ encode payload
      in Inr (c\<lparr>c_socket_out := c_socket_out c @ [(pkt, c_addr c)],
               c_pending_packets :=
                 (if isReliable
                  then AList.update (c_seqno c) \<lparr>packet = pkt, send_time = t_sent, retries = 0\<rparr>
                         (c_pending_packets c)
                  else c_pending_packets c),
               c_seqno := c_seqno c + 1,
               c_metrics := (c_metrics c)
                 \<lparr>bytes_sent := bytes_sent (c_metrics c) + length pkt,
                  packets_sent_reliable :=
                    packets_sent_reliable (c_metrics c) + (if isReliable then 1 else 0),
                  packets_sent_unreliable :=
                    packets_sent_unreliable (c_metrics c) + (if isReliable then 0 else 1)\<rparr>\<rparr>,
              None))"
  using assms
  by (simp add: send_message_def pack_header_def Let_def del: le_bytes.simps)

text \<open>
  Claim C3, amended. When the counter and the millisecond timestamp fit the header's
  unsigned 64-bit fields, a call of \<^verbatim>\<open>send_message\<close> on either channel sends one datagram
  to the peer whose header carries the channel tag, the current value of the single
  counter \<^verbatim>\<open>seqno\<close> and the timestamp, followed by the encoded payload; it returns
  \<^verbatim>\<open>None\<close>; the counter is then greater by 1 whatever the channel, so two sends in a row
  get adjacent numbers; and a reliable send stores under that sequence number the packet
  with retry count 0 and the clock reading taken after the transmission, while an
  unreliable send leaves the store as it is.
\<close>
theorem send_message_assigns:
  assumes "c_seqno c < 2 ^ 64" and "0 \<le> py_int (t_stamp * 1000)"
    and "py_int (t_stamp * 1000) < 2 ^ 64"
  shows "\<exists>c' pkt. send_message encode payload isReliable t_stamp t_sent c = Inr (c', None)
     \<and> c_socket_out c' = c_socket_out c @ [(pkt, c_addr c)]
     \<and> unpack_header (take HEADER_SIZE pkt) =
         Inr (if isReliable then 0 else 1, c_seqno c, nat (py_int (t_stamp * 1000)))
     \<and> drop HEADER_SIZE pkt = encode payload
     \<and> c_seqno c' = c_seqno c + 1
     \<and> map_of (c_pending_packets c') =
         (if isReliable
          then (map_of (c_pending_packets c))
                 (c_seqno c \<mapsto> \<lparr>packet = pkt, send_time = t_sent, retries = 0\<rparr>)
          else map_of (c_pending_packets c))"
proof -
  let ?ch = "if isReliable then 0 else (1::nat)"
  let ?ts = "nat (py_int (t_stamp * 1000))"
  let ?pkt = "(le_bytes 1 ?ch @ le_bytes 8 (c_seqno c) @ le_bytes 8 ?ts) @ encode payload"
  have ts: "?ts < 2 ^ 64" using assms(2,3) by (simp add: nat_less_iff)
  have ch: "?ch < 256" by simp
  have hd: "unpack_header (take HEADER_SIZE ?pkt) = Inr (?ch, c_seqno c, ?ts)"
    using ch assms(1) ts by (rule unpack_pack_header)
  have body: "drop HEADER_SIZE ?pkt = encode payload"
    by (rule drop_header)
  show ?thesis
    unfolding send_message_eq [OF assms] Let_def
    using hd body by (auto simp: update_conv' simp del: le_bytes.simps)
qed

lemma ack_listener_ack:
  assumes "seqno < 2 ^ 64"
  shows "ack_listener (255 # le_bytes 8 seqno) now c =
     (case map_of (c_pending_packets c) seqno of
        None \<Rightarrow> c
      | Some info \<Rightarrow>
          c\<lparr>c_metrics := (c_metrics c)
                \<lparr>latencies := latencies (c_metrics c) @ [now - send_time info],
                 packets_acked := packets_acked (c_metrics c) + 1\<rparr>,
            c_pending_packets := AList.delete seqno (c_pending_packets c)\<rparr>)"
  using assms
  by (simp add: ack_listener_def ACK_SIZE_def unpack_ack_def le_nat_le_bytes Let_def
      split: option.splits del: le_bytes.simps)

text \<open>
  Claim C5. For the nine bytes of an acknowledgment of \<open>seqno\<close> (marker 255), an iteration of
  \<^verbatim>\<open>_ack_listener\<close> that finds \<open>seqno\<close> in the store of tracked packets appends the round
  trip time \<open>now - send_time\<close> to the latencies, adds 1 to the count of acknowledged
  packets and removes the entry; when \<open>seqno\<close> is not in the store, the client's state is
  unchanged.
\<close>
theorem ack_matcher:
  "seqno < 2 ^ 64 \<Longrightarrow>
     ack_listener (255 # le_bytes 8 seqno) now c =
       (case map_of (c_pending_packets c) seqno of
          None \<Rightarrow> c
        | Some info \<Rightarrow>
            c\<lparr>c_metrics := (c_metrics c)
                  \<lparr>latencies := latencies (c_metrics c) @ [now - send_time info],
                   packets_acked := packets_acked (c_metrics c) + 1\<rparr>,
              c_pending_packets := AList.delete seqno (c_pending_packets c)\<rparr>)
     \<and> map_of (AList.delete seqno (c_pending_packets c)) seqno = None
     \<and> unpack_ack (255 # le_bytes 8 seqno) = Inr (255, seqno)"
  using ack_listener_ack [of seqno now c] unpack_ack_ack [of seqno]
  by (simp add: delete_conv' del: le_bytes.simps)

lemma delete_mid:
  assumes "k \<notin> fst ` set ys" and "k \<notin> fst ` set xs"
  shows "AList.delete k (ys @ (k, v) # xs) = ys @ xs"
  using assms by (induction ys) auto

lemma map_entry_mid:
  assumes "k \<notin> fst ` set ys"
  shows "AList.map_entry k f (ys @ (k, v) # xs) = ys @ (k, f v) # xs"
  using assms by (induction ys) auto

lemma retransmit_fold:
  assumes "distinct (map fst (ys @ xs))" and "c_pending_packets c = ys @ xs"
  shows "c_pending_packets (fold (retransmit_entry current) xs c)
           = ys @ concat (map (spec_entry_after current) xs)
     \<and> c_socket_out (fold (retransmit_entry current) xs c)
           = c_socket_out c
             @ map (\<lambda>p. (p, c_addr c)) (concat (map (spec_entry_resent current) xs))
     \<and> retransmissions (c_metrics (fold (retransmit_entry current) xs c))
           = retransmissions (c_metrics c) + length (concat (map (spec_entry_resent current) xs))
     \<and> c_addr (fold (retransmit_entry current) xs c) = c_addr c
     \<and> c_seqno (fold (retransmit_entry current) xs c) = c_seqno c"
  using assms
proof (induction xs arbitrary: ys c)
  case Nil
  then show ?case by simp
next
  case (Cons x xs)
  obtain k v where x: "x = (k, v)" by (cases x)
  let ?c1 = "retransmit_entry current x c"
  from Cons.prems(1) x have nk: "k \<notin> fst ` set ys" "k \<notin> fst ` set xs" by auto
  have p1: "c_pending_packets ?c1 = (ys @ spec_entry_after current x) @ xs"
    using Cons.prems(2) x delete_mid [OF nk] map_entry_mid [OF nk(1)]
    by (simp add: retransmit_entry_def spec_entry_after_def Let_def)
  have d1: "distinct (map fst ((ys @ spec_entry_after current x) @ xs))"
    using Cons.prems(1) x by (auto simp: spec_entry_after_def Let_def)
  have o1: "c_socket_out ?c1 = c_socket_out c @ map (\<lambda>p. (p, c_addr c)) (spec_entry_resent current x)"
    by (auto simp: retransmit_entry_def spec_entry_resent_def Let_def)
  have r1: "retransmissions (c_metrics ?c1)
      = retransmissions (c_metrics c) + length (spec_entry_resent current x)"
    by (auto simp: retransmit_entry_def spec_entry_resent_def Let_def)
  have a1: "c_addr ?c1 = c_addr c" "c_seqno ?c1 = c_seqno c"
    by (auto simp: retransmit_entry_def Let_def)
  from Cons.IH [OF d1 p1] show ?case
    by (simp add: o1 r1 a1)
qed

text \<open>
  Claim C4. One pass of \<^verbatim>\<open>_retransmit_checker\<close> over a store with distinct keys (a dict)
  treats every tracked packet by the rule \<open>spec_entry_after\<close>, \<open>spec_entry_resent\<close>: with
  \<open>elapsed = current - send_time\<close>, an entry with \<open>elapsed > 0.1\<close> and \<open>elapsed > 0.2\<close> is
  removed and nothing is sent for it; an entry with \<open>elapsed > 0.1\<close> but not
  \<open>elapsed > 0.2\<close> has its own packet bytes sent to the peer once, its send time set to
  \<open>current\<close> and its retry count raised by 1; any other entry is unchanged. The
  entries keep their order, and the retransmission counter grows by the number of
  packets sent.
\<close>
theorem retransmit_pass:
  "distinct (map fst (c_pending_packets c)) \<Longrightarrow>
     c_pending_packets (retransmit_checker current c)
         = concat (map (spec_entry_after current) (c_pending_packets c))
     \<and> c_socket_out (retransmit_checker current c)
         = c_socket_out c
           @ map (\<lambda>p. (p, c_addr c)) (concat (map (spec_entry_resent current) (c_pending_packets c)))
     \<and> retransmissions (c_metrics (retransmit_checker current c))
         = retransmissions (c_metrics c)
           + length (concat (map (spec_entry_resent current) (c_pending_packets c)))"
  using retransmit_fold [of "[]" "c_pending_packets c" c current]
  by (simp add: retransmit_checker_def)

text \<open>
  Claim C3 as stated fails: \<^verbatim>\<open>send_message\<close> has no \<^verbatim>\<open>return\<close> statement, so the first
  reliable send of a fresh client returns \<^verbatim>\<open>None\<close> and not the sequence number 0 that it
  assigned.
\<close>
theorem send_message_returns_none:
  "(\<exists>c'. send_message ex_encode ''a'' True 0 0 (client_init ex_addr) = Inr (c', None))
   \<and> \<not> (\<exists>c'. send_message ex_encode ''a'' True 0 0 (client_init ex_addr)
              = Inr (c', Some (c_seqno (client_init ex_addr))))"
  by (simp add: send_message_def pack_header_def py_int_def Let_def client_init_def
      del: le_bytes.simps)

text \<open>The first reliable send of a fresh client.\<close>
theorem send_message_assigns_witness:
  "c_seqno (client_init ex_addr) < 2 ^ 64 \<and> 0 \<le> py_int (0 * 1000) \<and> py_int (0 * 1000) < 2 ^ 64
   \<and> (\<exists>c' pkt. send_message ex_encode ''a'' True 0 0 (client_init ex_addr) = Inr (c', None)
         \<and> c_socket_out c' = [(pkt, ex_addr)]
         \<and> unpack_header (take HEADER_SIZE pkt) = Inr (0, 0, 0)
         \<and> c_seqno c' = 1
         \<and> map_of (c_pending_packets c') 0 = Some \<lparr>packet = pkt, send_time = 0, retries = 0\<rparr>)"
proof -
  have h: "c_seqno (client_init ex_addr) < 2 ^ 64" "0 \<le> py_int (0 * 1000)"
    "py_int (0 * 1000) < 2 ^ 64"
    by (simp_all add: client_init_def py_int_def)
  from send_message_assigns [OF h, of ex_encode "''a''" True 0]
  obtain c' pkt where
    "send_message ex_encode ''a'' True 0 0 (client_init ex_addr) = Inr (c', None)"
    "c_socket_out c' = c_socket_out (client_init ex_addr) @ [(pkt, c_addr (client_init ex_addr))]"
    "unpack_header (take HEADER_SIZE pkt) = Inr (0, c_seqno (client_init ex_addr), nat (py_int (0 * 1000)))"
    "c_seqno c' = c_seqno (client_init ex_addr) + 1"
    "map_of (c_pending_packets c') = (map_of (c_pending_packets (client_init ex_addr)))
        (c_seqno (client_init ex_addr) \<mapsto> \<lparr>packet = pkt, send_time = 0, retries = 0\<rparr>)"
    by auto
  then have "send_message ex_encode ''a'' True 0 0 (client_init ex_addr) = Inr (c', None)
         \<and> c_socket_out c' = [(pkt, ex_addr)]
         \<and> unpack_header (take HEADER_SIZE pkt) = Inr (0, 0, 0)
         \<and> c_seqno c' = 1
         \<and> map_of (c_pending_packets c') 0 = Some \<lparr>packet = pkt, send_time = 0, retries = 0\<rparr>"
    by (simp add: client_init_def py_int_def)
  then show ?thesis using h by blast
qed

lemma ex_client_fields:
  "c_pending_packets ex_client =
        [(0, \<lparr>packet = [0], send_time = 0, retries = 0\<rparr>),
         (1, \<lparr>packet = [1], send_time = 15 / 100, retries = 0\<rparr>),
         (2, \<lparr>packet = [2], send_time = 25 / 100, retries = 1\<rparr>)]"
  "c_socket_out ex_client = []" "c_addr ex_client = ex_addr"
  "retransmissions (c_metrics ex_client) = 0"
  "packets_acked (c_metrics ex_client) = 0"
  "latencies (c_metrics ex_client) = []"
  by (simp_all add: ex_client_def client_init_def)

text \<open>A pass at time 0.3 over packets sent at 0, 0.15 and 0.25: dropped, resent, kept.\<close>
theorem retransmit_pass_witness:
  "distinct (map fst (c_pending_packets ex_client))
   \<and> c_pending_packets (retransmit_checker (3 / 10) ex_client) =
        [(1, \<lparr>packet = [1], send_time = 3 / 10, retries = 1\<rparr>),
         (2, \<lparr>packet = [2], send_time = 25 / 100, retries = 1\<rparr>)]
   \<and> c_socket_out (retransmit_checker (3 / 10) ex_client) = [([1], ex_addr)]
   \<and> retransmissions (c_metrics (retransmit_checker (3 / 10) ex_client)) = 1"
proof -
  have d: "distinct (map fst (c_pending_packets ex_client))"
    by (simp add: ex_client_fields)
  show ?thesis
    using retransmit_pass [OF d, of "3 / 10"] d
    by (simp add: ex_client_fields spec_entry_after_def spec_entry_resent_def TIMEOUT_def
        MAX_THRESHOLD_def Let_def)
qed

text \<open>An acknowledgment of the tracked packet 1, and one of the unknown packet 7.\<close>
theorem ack_matcher_witness:
  "(1::nat) < 2 ^ 64
   \<and> c_pending_packets (ack_listener (255 # le_bytes 8 1) 1 ex_client) =
        [(0, \<lparr>packet = [0], send_time = 0, retries = 0\<rparr>),
         (2, \<lparr>packet = [2], send_time = 25 / 100, retries = 1\<rparr>)]
   \<and> latencies (c_metrics (ack_listener (255 # le_bytes 8 1) 1 ex_client)) = [85 / 100]
   \<and> packets_acked (c_metrics (ack_listener (255 # le_bytes 8 1) 1 ex_client)) = 1
   \<and> ack_listener (255 # le_bytes 8 7) 1 ex_client = ex_client"
  using ack_matcher [of 1 1 ex_client] ack_matcher [of 7 1 ex_client]
  by (simp add: ex_client_fields del: le_bytes.simps)

lemma calculate_jitter_next:
  assumes "last_arrival (metrics s) = Some la" and "last_timestamp (metrics s) = Some lt"
  shows "calculate_jitter ts arr s =
     Inr (s\<lparr>metrics := (metrics s)
            \<lparr>jitter := spec_jitter_step (jitter (metrics s))
                         ((arr - la) - (real ts - real lt) / 1000),
             last_arrival := Some arr, last_timestamp := Some ts\<rparr>\<rparr>)"
  using assms by (simp add: calculate_jitter_def Let_def spec_jitter_step_def)

lemma calculate_jitter_first:
  assumes "last_arrival (metrics s) = None"
  shows "calculate_jitter ts arr s =
     Inr (s\<lparr>metrics := (metrics s)\<lparr>last_arrival := Some arr, last_timestamp := Some ts\<rparr>\<rparr>)"
  using assms by (simp add: calculate_jitter_def Let_def)

lemma feed_three:
  "\<exists>s'. feed_jitter [(T, A0 + 10 / 1000), (T, A0 + 12 / 1000), (T, A0 + 8 / 1000)]
             (server_init t0) = Inr s'
        \<and> jitter (metrics s') = spec_jitter_step (spec_jitter_step 0 (2 / 1000)) (- 4 / 1000)"
proof -
  let ?s0 = "server_init t0"
  let ?s1 = "?s0\<lparr>metrics := (metrics ?s0)\<lparr>last_arrival := Some (A0 + 10 / 1000), last_timestamp := Some T\<rparr>\<rparr>"
  have 1: "calculate_jitter T (A0 + 10 / 1000) ?s0 = Inr ?s1"
    by (rule calculate_jitter_first) (simp add: server_init_def)
  let ?s2 = "?s1\<lparr>metrics := (metrics ?s1)
            \<lparr>jitter := spec_jitter_step (jitter (metrics ?s1))
                         ((A0 + 12 / 1000 - (A0 + 10 / 1000)) - (real T - real T) / 1000),
             last_arrival := Some (A0 + 12 / 1000), last_timestamp := Some T\<rparr>\<rparr>"
  have 2: "calculate_jitter T (A0 + 12 / 1000) ?s1 = Inr ?s2"
    by (rule calculate_jitter_next) simp_all
  let ?s3 = "?s2\<lparr>metrics := (metrics ?s2)
            \<lparr>jitter := spec_jitter_step (jitter (metrics ?s2))
                         ((A0 + 8 / 1000 - (A0 + 12 / 1000)) - (real T - real T) / 1000),
             last_arrival := Some (A0 + 8 / 1000), last_timestamp := Some T\<rparr>\<rparr>"
  have 3: "calculate_jitter T (A0 + 8 / 1000) ?s2 = Inr ?s3"
    by (rule calculate_jitter_next) simp_all
  have "feed_jitter [(T, A0 + 10 / 1000), (T, A0 + 12 / 1000), (T, A0 + 8 / 1000)] ?s0 = Inr ?s3"
    by (simp only: feed_jitter.simps fst_conv snd_conv 1 2 3 sum.case)
  moreover have "jitter (metrics ?s3) = spec_jitter_step (spec_jitter_step 0 (2 / 1000)) (- 4 / 1000)"
    by (simp add: server_init_def)
  ultimately show ?thesis by blast
qed

lemma spec_jitter_scale:
  "1000 * spec_jitter_step (spec_jitter_step 0 (2 / 1000)) (- 4 / 1000)
     = spec_jitter_step (spec_jitter_step 0 2) (- 4)"
  by (simp add: spec_jitter_step_def)

lemma spec_jitter_ms: "spec_jitter_step (spec_jitter_step 0 2) (- 4) = 47 / 128"
  by (simp add: spec_jitter_step_def)

text \<open>
  Claim C9. With the remote send timestamp \<open>T\<close> and the local arrival time \<open>A\<close> both as
  times in seconds: when a previous sample \<open>(la, lt)\<close> is stored, \<^verbatim>\<open>_calculate_jitter\<close>
  takes \<open>D = (A - la) - (T - lt)\<close> and replaces the estimate \<open>J\<close> by
  \<open>J + (|D| - J) / 16\<close>; on the first sample the estimate is unchanged; in both cases the
  new sample is stored. From a fresh server (\<open>J = 0\<close>), three arrivals with the same
  remote timestamp at 10 ms, 12 ms and 8 ms after a common origin give the estimate
  obtained by applying the rule to the \<open>D\<close> sequence 2, -4 in milliseconds (0.002, -0.004
  in seconds, the first arrival skipped), which is 47/128 = 0.3671875 ms. Floats are
  read as reals.
\<close>
theorem jitter_update:
  "(last_arrival (metrics s) = Some la \<and> last_timestamp (metrics s) = Some lt \<longrightarrow>
      (\<exists>s'. calculate_jitter ts arr s = Inr s'
         \<and> jitter (metrics s') =
             spec_jitter_step (jitter (metrics s))
               ((arr - la) - (timestamp_seconds ts - timestamp_seconds lt))
         \<and> last_arrival (metrics s') = Some arr \<and> last_timestamp (metrics s') = Some ts))
   \<and> (last_arrival (metrics s) = None \<longrightarrow>
      (\<exists>s'. calculate_jitter ts arr s = Inr s'
         \<and> jitter (metrics s') = jitter (metrics s)
         \<and> last_arrival (metrics s') = Some arr \<and> last_timestamp (metrics s') = Some ts))
   \<and> (\<exists>s'. feed_jitter [(T, A0 + 10 / 1000), (T, A0 + 12 / 1000), (T, A0 + 8 / 1000)]
               (server_init t0) = Inr s'
         \<and> jitter (metrics s') = spec_jitter_step (spec_jitter_step 0 (2 / 1000)) (- 4 / 1000)
         \<and> 1000 * jitter (metrics s') = spec_jitter_step (spec_jitter_step 0 2) (- 4)
         \<and> 1000 * jitter (metrics s') = 47 / 128)"
proof -
  have d: "(real ts - real lt) / 1000 = timestamp_seconds ts - timestamp_seconds lt"
    by (simp add: timestamp_seconds_def diff_divide_distrib)
  have a: "last_arrival (metrics s) = Some la \<and> last_timestamp (metrics s) = Some lt \<longrightarrow>
      (\<exists>s'. calculate_jitter ts arr s = Inr s'
         \<and> jitter (metrics s') =
             spec_jitter_step (jitter (metrics s))
               ((arr - la) - (timestamp_seconds ts - timestamp_seconds lt))
         \<and> last_arrival (metrics s') = Some arr \<and> last_timestamp (metrics s') = Some ts)"
    unfolding d [symmetric] by (auto simp: calculate_jitter_next)
  have b: "last_arrival (metrics s) = None \<longrightarrow>
      (\<exists>s'. calculate_jitter ts arr s = Inr s'
         \<and> jitter (metrics s') = jitter (metrics s)
         \<and> last_arrival (metrics s') = Some arr \<and> last_timestamp (metrics s') = Some ts)"
    by (auto simp: calculate_jitter_first)
  from feed_three [of T A0 t0] obtain s' where
    f: "feed_jitter [(T, A0 + 10 / 1000), (T, A0 + 12 / 1000), (T, A0 + 8 / 1000)]
               (server_init t0) = Inr s'
        \<and> jitter (metrics s') = spec_jitter_step (spec_jitter_step 0 (2 / 1000)) (- 4 / 1000)" ..
  from f have j: "jitter (metrics s')
      = spec_jitter_step (spec_jitter_step 0 (2 / 1000)) (- 4 / 1000)" ..
  have m: "1000 * jitter (metrics s') = spec_jitter_step (spec_jitter_step 0 2) (- 4)"
    unfolding j by (rule spec_jitter_scale)
  then have v: "1000 * jitter (metrics s') = 47 / 128"
    unfolding spec_jitter_ms .
  from f m v have c: "\<exists>s'. feed_jitter [(T, A0 + 10 / 1000), (T, A0 + 12 / 1000), (T, A0 + 8 / 1000)]
               (server_init t0) = Inr s'
         \<and> jitter (metrics s') = spec_jitter_step (spec_jitter_step 0 (2 / 1000)) (- 4 / 1000)
         \<and> 1000 * jitter (metrics s') = spec_jitter_step (spec_jitter_step 0 2) (- 4)
         \<and> 1000 * jitter (metrics s') = 47 / 128"
    by (intro exI [of _ s'] conjI) simp_all
  from a b c show ?thesis by (intro conjI)
qed

lemma ex_sample_fields:
  "last_arrival (metrics ex_sample) = Some 0" "last_timestamp (metrics ex_sample) = Some 0"
  "jitter (metrics ex_sample) = 0"
  by (simp_all add: ex_sample_def calculate_jitter_first server_init_def)

text \<open>
  A second sample 10 ms after the first; a packet stamped 1000 ms later that arrives
  1 s later, for which \<open>D = 0\<close>; and a first sample.
\<close>
theorem jitter_update_witness:
  "last_arrival (metrics ex_sample) = Some 0 \<and> last_timestamp (metrics ex_sample) = Some 0
   \<and> (\<exists>s'. calculate_jitter 0 (1 / 100) ex_sample = Inr s'
         \<and> jitter (metrics s') = 1 / 1600
         \<and> last_arrival (metrics s') = Some (1 / 100) \<and> last_timestamp (metrics s') = Some 0)
   \<and> (\<exists>s'. calculate_jitter 1000 1 ex_sample = Inr s'
         \<and> jitter (metrics s') = 0
         \<and> last_arrival (metrics s') = Some 1 \<and> last_timestamp (metrics s') = Some 1000)
   \<and> last_arrival (metrics (server_init 0)) = None
   \<and> (\<exists>s'. calculate_jitter 5 7 (server_init 0) = Inr s'
         \<and> jitter (metrics s') = 0
         \<and> last_arrival (metrics s') = Some 7 \<and> last_timestamp (metrics s') = Some 5)"
  using jitter_update [of ex_sample 0 0 0 "1 / 100"] jitter_update [of ex_sample 0 0 1000 1]
    jitter_update [of "server_init 0" 0 0 5 7]
  by (simp add: ex_sample_fields spec_jitter_step_def server_init_def timestamp_seconds_def)

section \<open>Delivery of a sequence of reliable sends\<close>

lemma skipped_step_mono:
  "packets_skipped (metrics s) \<le> packets_skipped (metrics (snd (server_step decode e s)))"
proof (cases e)
  case (Datagram d a t1 t2)
  have "packets_skipped (metrics s)
      \<le> packets_skipped (metrics (packet_receiver decode d a t1 t2 s))"
    by (rule packet_receiver_rule)
      (auto simp: handle_unreliable_channel_def dest: handle_reliable_cursor)
  then show ?thesis using Datagram by simp
qed (auto simp: receive_reliable_eq receive_unreliable_def timeout_checker_eq
      split: option.splits list.splits)

lemma skipped_run_mono:
  "packets_skipped (metrics s) \<le> packets_skipped (metrics (run decode es s))"
proof (induction es arbitrary: s)
  case Nil
  show ?case by simp
next
  case (Cons e es)
  have "packets_skipped (metrics s)
      \<le> packets_skipped (metrics (snd (server_step decode e s)))"
    by (rule skipped_step_mono)
  also have "\<dots> \<le> packets_skipped (metrics (run decode (e # es) s))"
    using Cons by simp
  finally show ?case .
qed

lemma timeout_checker_noskip:
  "packets_skipped (metrics (timeout_checker now s)) = packets_skipped (metrics s)
     \<Longrightarrow> timeout_checker now s = s"
  by (auto simp: timeout_checker_eq split: option.splits if_splits)

lemma event_seq_carries:
  "carries decode d i p \<Longrightarrow> event_seq decode (Datagram d a t1 t2) = {i}"
  by (auto dest: carries_unique)

lemma seqs_Cons [simp]: "seqs decode (e # es) = event_seq decode e \<union> seqs decode es"
  by (simp add: seqs_def)

lemma seqs_Nil [simp]: "seqs decode [] = {}"
  by (simp add: seqs_def)

lemma good_step:
  assumes g: "good ps A s"
    and dg: "\<And>d a t1 t2. e = Datagram d a t1 t2
               \<Longrightarrow> \<exists>i < length ps. carries decode d i (ps ! i)"
    and ns: "packets_skipped (metrics (snd (server_step decode e s)))
               = packets_skipped (metrics s)"
  shows "good ps (A \<union> seqs decode [e]) (snd (server_step decode e s))
     \<and> (case (e, fst (server_step decode e s)) of
           (ReceiveReliable, Some r) \<Rightarrow> [r] | _ \<Rightarrow> [])
         = map (\<lambda>i. (i, ps ! i))
             [next_expected_reliable s..<
              next_expected_reliable (snd (server_step decode e s))]"
proof (cases e)
  case (Datagram d a t1 t2)
  from dg [OF Datagram] obtain i where i: "i < length ps" "carries decode d i (ps ! i)"
    by blast
  have sqs: "seqs decode [e] = {i}"
    using event_seq_carries [OF i(2)] Datagram by simp
  from g have ok: "sample_ok s" by (simp add: good_def)
  note pr = packet_receiver_carries [OF i(2) ok, of a t1 t2]
  have "good ps (insert i A) (packet_receiver decode d a t1 t2 s)"
    using g i(1) pr unfolding good_def by auto
  then show ?thesis using Datagram sqs pr by simp
next
  case ReceiveReliable
  have sqs: "seqs decode [e] = {}" using ReceiveReliable by simp
  show ?thesis
  proof (cases "reliable_buffer s (next_expected_reliable s)")
    case None
    then show ?thesis using g ReceiveReliable sqs by (simp add: receive_reliable_eq)
  next
    case (Some p)
    from g have buf: "reliable_buffer s (next_expected_reliable s) =
        (if next_expected_reliable s \<in> A then Some (ps ! next_expected_reliable s) else None)"
      by (simp add: good_def)
    with Some have inA: "next_expected_reliable s \<in> A"
      and p: "p = ps ! next_expected_reliable s"
      by (auto split: if_splits)
    from g inA have lt: "next_expected_reliable s < length ps"
      by (auto simp: good_def)
    have "good ps A (snd (receive_reliable s))"
      using g inA lt Some unfolding good_def
      by (auto simp: receive_reliable_eq sample_ok_def less_Suc_eq)
    then show ?thesis
      using ReceiveReliable sqs Some p by (simp add: receive_reliable_eq)
  qed
next
  case ReceiveUnreliable
  have sqs: "seqs decode [e] = {}" using ReceiveUnreliable by simp
  have "good ps A (snd (receive_unreliable s))"
    using g unfolding good_def
    by (auto simp: receive_unreliable_def sample_ok_def split: list.splits)
  then show ?thesis using ReceiveUnreliable sqs
    by (simp add: receive_unreliable_def split: list.splits)
next
  case (TimeoutCheck now)
  have sqs: "seqs decode [e] = {}" using TimeoutCheck by simp
  have "timeout_checker now s = s"
    using ns TimeoutCheck by (simp add: timeout_checker_noskip)
  then show ?thesis using g TimeoutCheck sqs by simp
qed

lemma good_run:
  assumes "good ps A s"
    and "\<And>d a t1 t2. Datagram d a t1 t2 \<in> set es
           \<Longrightarrow> \<exists>i < length ps. carries decode d i (ps ! i)"
    and "packets_skipped (metrics (run decode es s)) = packets_skipped (metrics s)"
  shows "good ps (A \<union> seqs decode es) (run decode es s)
     \<and> reliable_outputs decode es s
         = map (\<lambda>i. (i, ps ! i))
             [next_expected_reliable s..<next_expected_reliable (run decode es s)]"
  using assms
proof (induction es arbitrary: s A)
  case Nil
  then show ?case by simp
next
  case (Cons e es)
  let ?s1 = "snd (server_step decode e s)"
  have m1: "packets_skipped (metrics s) \<le> packets_skipped (metrics ?s1)"
    by (rule skipped_step_mono)
  have m2: "packets_skipped (metrics ?s1) \<le> packets_skipped (metrics (run decode es ?s1))"
    by (rule skipped_run_mono)
  from Cons.prems(3) have fin: "packets_skipped (metrics (run decode es ?s1))
      = packets_skipped (metrics s)" by simp
  from m1 m2 fin have ns1: "packets_skipped (metrics ?s1) = packets_skipped (metrics s)"
    and ns2: "packets_skipped (metrics (run decode es ?s1)) = packets_skipped (metrics ?s1)"
    by simp_all
  have dg1: "\<exists>i < length ps. carries decode d i (ps ! i)"
    if "e = Datagram d a t1 t2" for d a t1 t2
    using Cons.prems(2) [of d a t1 t2] that by simp
  have dg2: "\<exists>i < length ps. carries decode d i (ps ! i)"
    if "Datagram d a t1 t2 \<in> set es" for d a t1 t2
    using Cons.prems(2) [of d a t1 t2] that by simp
  have "good ps (A \<union> seqs decode [e]) ?s1
     \<and> (case (e, fst (server_step decode e s)) of
           (ReceiveReliable, Some r) \<Rightarrow> [r] | _ \<Rightarrow> [])
         = map (\<lambda>i. (i, ps ! i)) [next_expected_reliable s..<next_expected_reliable ?s1]"
    using Cons.prems(1) dg1 ns1 by (rule good_step)
  then have g1: "good ps (A \<union> seqs decode [e]) ?s1"
    and o1: "(case (e, fst (server_step decode e s)) of
               (ReceiveReliable, Some r) \<Rightarrow> [r] | _ \<Rightarrow> [])
             = map (\<lambda>i. (i, ps ! i))
                 [next_expected_reliable s..<next_expected_reliable ?s1]"
    by blast+
  have "good ps ((A \<union> seqs decode [e]) \<union> seqs decode es) (run decode es ?s1)
     \<and> reliable_outputs decode es ?s1
         = map (\<lambda>i. (i, ps ! i))
             [next_expected_reliable ?s1..<next_expected_reliable (run decode es ?s1)]"
    using g1 dg2 ns2 by (rule Cons.IH)
  then have g2: "good ps ((A \<union> seqs decode [e]) \<union> seqs decode es) (run decode es ?s1)"
    and o2: "reliable_outputs decode es ?s1
             = map (\<lambda>i. (i, ps ! i))
                 [next_expected_reliable ?s1..<next_expected_reliable (run decode es ?s1)]"
    by blast+
  have le1: "next_expected_reliable s \<le> next_expected_reliable ?s1"
    by (rule server_step_mono)
  have le2: "next_expected_reliable ?s1 \<le> next_expected_reliable (run decode es ?s1)"
    by (rule run_mono)
  have split: "[next_expected_reliable s..<next_expected_reliable (run decode es ?s1)]
      = [next_expected_reliable s..<next_expected_reliable ?s1]
        @ [next_expected_reliable ?s1..<next_expected_reliable (run decode es ?s1)]"
    using le1 le2 by (metis le_Suc_ex upt_add_eq_append)
  have out: "reliable_outputs decode (e # es) s
      = map (\<lambda>i. (i, ps ! i))
          [next_expected_reliable s..<next_expected_reliable (run decode (e # es) s)]"
    using o1 o2 split by simp
  from g2 have "good ps (A \<union> seqs decode (e # es)) (run decode (e # es) s)"
    by (simp add: Un_assoc)
  with out show ?case by blast
qed

lemma polls_drain:
  assumes "\<And>k. reliable_buffer s k =
             (if next_expected_reliable s \<le> k \<and> k < n then Some (ps ! k) else None)"
    and "n - next_expected_reliable s \<le> m"
  shows "reliable_outputs decode (replicate m ReceiveReliable) s
           = map (\<lambda>i. (i, ps ! i)) [next_expected_reliable s..<n]"
  using assms
proof (induction m arbitrary: s)
  case 0
  then show ?case by simp
next
  case (Suc m)
  let ?c = "next_expected_reliable s"
  show ?case
  proof (cases "?c < n")
    case False
    then have none: "reliable_buffer s k = None" for k
      using Suc.prems(1) [of k] by simp
    then have st: "receive_reliable s = (None, s)"
      by (simp add: receive_reliable_eq)
    have "reliable_outputs decode (replicate m ReceiveReliable) s
        = map (\<lambda>i. (i, ps ! i)) [?c..<n]"
      using Suc.IH [of s] Suc.prems False by simp
    then show ?thesis using st by simp
  next
    case True
    then have some: "reliable_buffer s ?c = Some (ps ! ?c)"
      using Suc.prems(1) [of ?c] by simp
    let ?s1 = "snd (receive_reliable s)"
    have c1: "next_expected_reliable ?s1 = ?c + 1"
      using some by (simp add: receive_reliable_eq)
    have b1: "reliable_buffer ?s1 k =
        (if next_expected_reliable ?s1 \<le> k \<and> k < n then Some (ps ! k) else None)" for k
      using some Suc.prems(1) [of k] by (auto simp: receive_reliable_eq)
    have "n - next_expected_reliable ?s1 \<le> m"
      using c1 Suc.prems(2) by simp
    from Suc.IH [of ?s1, OF b1 this]
    have "reliable_outputs decode (replicate m ReceiveReliable) ?s1
        = map (\<lambda>i. (i, ps ! i)) [?c + 1..<n]"
      using c1 by simp
    moreover have "fst (receive_reliable s) = Some (?c, ps ! ?c)"
      using some by (simp add: receive_reliable_eq)
    ultimately show ?thesis
      using True by (simp add: upt_conv_Cons)
  qed
qed

lemma reliable_outputs_append:
  "reliable_outputs decode (es @ es') s
     = reliable_outputs decode es s @ reliable_outputs decode es' (run decode es s)"
  by (induction es arbitrary: s) simp_all

lemma send_message_Inr:
  assumes "send_message encode payload isReliable t_stamp t_sent c = Inr r"
  shows "c_seqno c < 2 ^ 64 \<and> 0 \<le> py_int (t_stamp * 1000) \<and> py_int (t_stamp * 1000) < 2 ^ 64"
  using assms
  by (auto simp: send_message_def pack_header_def Let_def split: if_splits)

lemma sent_carries:
  assumes "send_reliable_all encode sends c = Inr c'"
    and "\<forall>p \<in> fst ` set sends. decode (encode p) = Some p"
  shows "\<exists>ds. map fst (c_socket_out c') = map fst (c_socket_out c) @ ds
           \<and> length ds = length sends
           \<and> (\<forall>i < length sends. carries decode (ds ! i) (c_seqno c + i) (fst (sends ! i)))"
  using assms
proof (induction sends arbitrary: c)
  case Nil
  then show ?case by simp
next
  case (Cons x rest)
  let ?p = "fst x" and ?t1 = "fst (snd x)" and ?t2 = "snd (snd x)"
  from Cons.prems(1) obtain r where
    r: "send_message encode ?p True ?t1 ?t2 c = Inr r"
    and rest: "send_reliable_all encode rest (fst r) = Inr c'"
    by (auto split: sum.splits)
  note conds = send_message_Inr [OF r]
  let ?ts = "nat (py_int (?t1 * 1000))"
  let ?pkt = "(le_bytes 1 0 @ le_bytes 8 (c_seqno c) @ le_bytes 8 ?ts) @ encode ?p"
  have ts: "?ts < 2 ^ 64" using conds by (simp add: nat_less_iff)
  from conds have c1: "c_seqno c < 2 ^ 64" and c2: "0 \<le> py_int (?t1 * 1000)"
    and c3: "py_int (?t1 * 1000) < 2 ^ 64" by simp_all
  note eq = send_message_eq [OF c1 c2 c3, of encode ?p True ?t2]
  from r have out1: "c_socket_out (fst r) = c_socket_out c @ [(?pkt, c_addr c)]"
    and sq1: "c_seqno (fst r) = c_seqno c + 1"
    unfolding eq Let_def by auto
  have hd: "unpack_header (take HEADER_SIZE ?pkt) = Inr (0, c_seqno c, ?ts)"
    using conds ts by (intro unpack_pack_header) simp_all
  have body: "drop HEADER_SIZE ?pkt = encode ?p" by (rule drop_header)
  have dec: "decode (encode ?p) = Some ?p" using Cons.prems(2) by simp
  have c0: "carries decode ?pkt (c_seqno c) ?p"
    unfolding carries_def using hd body dec by (simp add: HEADER_SIZE_def del: le_bytes.simps)
  have "\<forall>p \<in> fst ` set rest. decode (encode p) = Some p" using Cons.prems(2) by simp
  from Cons.IH [OF rest this] obtain ds where
    ds: "map fst (c_socket_out c') = map fst (c_socket_out (fst r)) @ ds"
      "length ds = length rest"
      "\<forall>i < length rest. carries decode (ds ! i) (c_seqno (fst r) + i) (fst (rest ! i))"
    by blast
  have "\<forall>i < length (x # rest).
      carries decode ((?pkt # ds) ! i) (c_seqno c + i) (fst ((x # rest) ! i))"
  proof (intro allI impI)
    fix i assume "i < length (x # rest)"
    then show "carries decode ((?pkt # ds) ! i) (c_seqno c + i) (fst ((x # rest) ! i))"
      using c0 ds(3) sq1 by (cases i) simp_all
  qed
  moreover have "map fst (c_socket_out c') = map fst (c_socket_out c) @ (?pkt # ds)"
    using ds(1) out1 by simp
  moreover have "length (?pkt # ds) = length (x # rest)" using ds(2) by simp
  ultimately show ?case by blast
qed

lemma init_good: "good ps {} (server_init t0)"
  by (simp add: good_def sample_ok_def server_init_def)

lemma upt_split: "a \<le> b \<Longrightarrow> b \<le> c \<Longrightarrow> [a..<c] = [a..<b] @ [b..<c]"
  by (metis le_Suc_ex upt_add_eq_append)

lemma map_nth_zip: "map (\<lambda>i. (i, ps ! i)) [0..<length ps] = zip [0..<length ps] ps"
  by (rule nth_equalityI) simp_all

text \<open>
  Claim C1, amended. A fresh client makes \<open>N\<close> reliable sends of payloads that the codec
  round-trips. Let the steps \<open>es\<close> of a fresh server receive only datagrams that the client
  has sent, each of them at least once, in any order and with any calls of the
  application in between, and let the timeout thread skip nothing during \<open>es\<close>. Then the
  calls of \<^verbatim>\<open>receive_reliable\<close> in \<open>es\<close>, followed by \<open>k \<ge> N\<close> further calls, return
  exactly the \<open>N\<close> payloads, numbered \<open>0, \<dots>, N - 1\<close>, in the order of the sends.
\<close>
theorem lossless_delivery:
  assumes codec: "\<forall>p \<in> fst ` set sends. decode (encode p) = Some p"
    and sent: "send_reliable_all encode sends (client_init peer) = Inr c"
    and only: "\<forall>e \<in> set es. \<forall>d a t1 t2.
                 e = Datagram d a t1 t2 \<longrightarrow> d \<in> fst ` set (c_socket_out c)"
    and every: "\<forall>d \<in> fst ` set (c_socket_out c). \<exists>a t1 t2. Datagram d a t1 t2 \<in> set es"
    and noskip: "packets_skipped (metrics (run decode es (server_init t0))) = 0"
    and calls: "length sends \<le> k"
  shows "reliable_outputs decode (es @ replicate k ReceiveReliable) (server_init t0)
           = zip [0..<length sends] (map fst sends)"
proof -
  define ps where "ps = map fst sends"
  define n where "n = length sends"
  define s0 where "s0 = server_init t0"
  define sf where "sf = run decode es s0"
  define f where "f = (\<lambda>i. (i, ps ! i))"
  have s0: "next_expected_reliable s0 = 0" "packets_skipped (metrics s0) = 0"
    by (simp_all add: s0_def server_init_def)
  have len: "length ps = n" by (simp add: ps_def n_def)
  from sent_carries [OF sent codec] obtain ds where
    ds: "map fst (c_socket_out c) = ds" "length ds = n"
      "\<forall>i < n. carries decode (ds ! i) i (fst (sends ! i))"
    unfolding n_def by (auto simp: client_init_def)
  have D: "fst ` set (c_socket_out c) = set ds"
    unfolding ds(1) [symmetric] by simp
  have car: "carries decode (ds ! i) i (ps ! i)" if "i < n" for i
    using ds(3) that by (simp add: ps_def n_def)
  have dg: "\<exists>i < length ps. carries decode d i (ps ! i)"
    if "Datagram d a t1 t2 \<in> set es" for d a t1 t2
  proof -
    have "d \<in> fst ` set (c_socket_out c)"
      using only [rule_format, OF that, of d a t1 t2] by simp
    then have "d \<in> set ds" unfolding D .
    then obtain i where i: "i < length ds" "d = ds ! i"
      unfolding in_set_conv_nth by blast
    from i(1) have "i < n" using ds(2) by simp
    from car [OF this] i(2) \<open>i < n\<close> len show ?thesis by blast
  qed
  have ns: "packets_skipped (metrics (run decode es s0)) = packets_skipped (metrics s0)"
    using noskip s0(2) by (simp add: s0_def)
  have "good ps ({} \<union> seqs decode es) (run decode es s0)
     \<and> reliable_outputs decode es s0
         = map (\<lambda>i. (i, ps ! i))
             [next_expected_reliable s0..<next_expected_reliable (run decode es s0)]"
    using init_good [of ps t0, folded s0_def] dg ns by (rule good_run)
  then have g: "good ps (seqs decode es) sf"
    and o1: "reliable_outputs decode es s0 = map f [0..<next_expected_reliable sf]"
    unfolding sf_def f_def s0(1) by simp_all
  have sub: "{..<n} \<subseteq> seqs decode es"
  proof
    fix i assume "i \<in> {..<n}"
    then have i: "i < n" by simp
    then have "ds ! i \<in> fst ` set (c_socket_out c)" unfolding D using ds(2) by simp
    from every [rule_format, OF this] obtain a t1 t2 where
      e: "Datagram (ds ! i) a t1 t2 \<in> set es" by blast
    have "\<exists>p. carries decode (ds ! i) i p" using car [OF i] by blast
    then have "i \<in> event_seq decode (Datagram (ds ! i) a t1 t2)" by simp
    with e show "i \<in> seqs decode es" unfolding seqs_def by (rule UN_I)
  qed
  have "seqs decode es \<subseteq> {..<n}" using g len by (simp add: good_def)
  with sub have A: "seqs decode es = {..<n}" by (rule subset_antisym [rotated])
  have cle: "next_expected_reliable sf \<le> n" using g len by (simp add: good_def)
  have "\<forall>j. reliable_buffer sf j =
      (if next_expected_reliable sf \<le> j \<and> j \<in> seqs decode es then Some (ps ! j) else None)"
    using g by (simp add: good_def)
  then have buf: "reliable_buffer sf j =
      (if next_expected_reliable sf \<le> j \<and> j < n then Some (ps ! j) else None)" for j
    unfolding A by simp
  have "n - next_expected_reliable sf \<le> k" using calls by (simp add: n_def)
  with buf have "reliable_outputs decode (replicate k ReceiveReliable) sf
      = map (\<lambda>i. (i, ps ! i)) [next_expected_reliable sf..<n]"
    by (rule polls_drain)
  then have o2: "reliable_outputs decode (replicate k ReceiveReliable) sf
      = map f [next_expected_reliable sf..<n]"
    unfolding f_def .
  have "[0..<n] = [0..<next_expected_reliable sf] @ [next_expected_reliable sf..<n]"
    using le0 cle by (rule upt_split)
  then have "map f [0..<n]
      = map f [0..<next_expected_reliable sf] @ map f [next_expected_reliable sf..<n]"
    by (simp only: map_append)
  also have "\<dots> = reliable_outputs decode (es @ replicate k ReceiveReliable) s0"
    unfolding reliable_outputs_append o1 o2 [unfolded sf_def] sf_def ..
  finally have "reliable_outputs decode (es @ replicate k ReceiveReliable) s0
      = map (\<lambda>i. (i, ps ! i)) [0..<length ps]"
    unfolding f_def len ..
  then show ?thesis
    unfolding map_nth_zip s0_def ps_def n_def by simp
qed

lemma ex_codec: "ex_decode (ex_encode ''a'') = Some ''a''" "ex_decode (ex_encode ''b'') = Some ''b''"
  by code_simp+

lemma ex_carries: "carries ex_decode ex_d0 0 ''a''" "carries ex_decode ex_d1 1 ''b''"
proof -
  have "unpack_header (take HEADER_SIZE ex_d0) = Inr (0, 0, 0)"
    unfolding ex_d0_def by (rule unpack_pack_header) simp_all
  moreover have "drop HEADER_SIZE ex_d0 = ex_encode ''a''"
    unfolding ex_d0_def by (rule drop_header)
  moreover have "HEADER_SIZE \<le> length ex_d0"
    by (simp add: ex_d0_def HEADER_SIZE_def del: le_bytes.simps)
  ultimately show "carries ex_decode ex_d0 0 ''a''"
    unfolding carries_def using ex_codec(1) by auto
  have "unpack_header (take HEADER_SIZE ex_d1) = Inr (0, 1, 0)"
    unfolding ex_d1_def by (rule unpack_pack_header) simp_all
  moreover have "drop HEADER_SIZE ex_d1 = ex_encode ''b''"
    unfolding ex_d1_def by (rule drop_header)
  moreover have "HEADER_SIZE \<le> length ex_d1"
    by (simp add: ex_d1_def HEADER_SIZE_def del: le_bytes.simps)
  ultimately show "carries ex_decode ex_d1 1 ''b''"
    unfolding carries_def using ex_codec(2) by auto
qed

lemma ex_sent:
  "\<exists>c. send_reliable_all ex_encode ex_sends (client_init ex_addr) = Inr c
       \<and> map fst (c_socket_out c) = [ex_d0, ex_d1]"
proof -
  have p: "py_int 0 = 0" by (simp add: py_int_def)
  let ?c0 = "client_init ex_addr"
  have c0: "c_seqno ?c0 < 2 ^ 64" "0 \<le> py_int (0 * 1000)" "py_int (0 * 1000) < 2 ^ 64"
    by (simp_all add: client_init_def py_int_def)
  note e0 = send_message_eq [OF c0, of ex_encode "''a''" True 0]
  obtain c1 where 1: "send_message ex_encode ''a'' True 0 0 ?c0 = Inr (c1, None)"
    and o1: "c_socket_out c1 = [(ex_d0, ex_addr)]" and s1: "c_seqno c1 = 1"
    and a1: "c_addr c1 = ex_addr"
    unfolding e0 Let_def by (simp add: client_init_def p ex_d0_def del: le_bytes.simps)
  have c1: "c_seqno c1 < 2 ^ 64" by (simp add: s1)
  note e1 = send_message_eq [OF c1 c0(2,3), of ex_encode "''b''" True 0]
  obtain c2 where 2: "send_message ex_encode ''b'' True 0 0 c1 = Inr (c2, None)"
    and o2: "c_socket_out c2 = [(ex_d0, ex_addr), (ex_d1, ex_addr)]"
    unfolding e1 Let_def by (simp add: o1 s1 a1 p ex_d1_def del: le_bytes.simps)
  have "send_reliable_all ex_encode ex_sends ?c0 = Inr c2"
    by (simp add: ex_sends_def 1 2)
  with o2 show ?thesis by simp
qed

lemma packet_receiver_skipped:
  "packets_skipped (metrics (packet_receiver decode d a arr now s)) = packets_skipped (metrics s)"
  by (rule packet_receiver_rule)
    (auto simp: handle_unreliable_channel_def dest: handle_reliable_cursor)

lemma server_step_skipped:
  assumes "\<And>now. e \<noteq> TimeoutCheck now"
  shows "packets_skipped (metrics (snd (server_step decode e s))) = packets_skipped (metrics s)"
  using assms
  by (cases e)
    (auto simp: packet_receiver_skipped receive_reliable_eq receive_unreliable_def
      split: option.splits list.splits)

lemma run_skipped:
  assumes "\<And>now. TimeoutCheck now \<notin> set es"
  shows "packets_skipped (metrics (run decode es s)) = packets_skipped (metrics s)"
  using assms
proof (induction es arbitrary: s)
  case Nil
  show ?case by simp
next
  case (Cons e es)
  have "packets_skipped (metrics (snd (server_step decode e s))) = packets_skipped (metrics s)"
    using Cons.prems by (intro server_step_skipped) auto
  moreover have "packets_skipped (metrics (run decode es (snd (server_step decode e s))))
      = packets_skipped (metrics (snd (server_step decode e s)))"
    using Cons.prems by (intro Cons.IH) auto
  ultimately show ?case by simp
qed

lemma ex_expected: "zip [0..<length ex_sends] (map fst ex_sends) = [(0, ''a''), (1, ''b'')]"
  by (simp add: ex_sends_def)

text \<open>
  Claim C1 as stated fails when a packet is delivered late. The client sends \<open>''a''\<close> and
  \<open>''b''\<close>; packet 1 arrives at time 0, the timeout thread runs at time 1 and skips
  packet 0, and packet 0 arrives at time 2. Both packets were delivered, and the calls of
  \<^verbatim>\<open>receive_reliable\<close> return one payload, not two.
\<close>
theorem late_packet_lost:
  "(\<exists>c. send_reliable_all ex_encode ex_sends (client_init ex_addr) = Inr c
        \<and> map fst (c_socket_out c) = [ex_d0, ex_d1])
   \<and> reliable_outputs ex_decode (ex_late @ replicate 2 ReceiveReliable) (server_init 0)
       = [(1, ''b'')]
   \<and> zip [0..<length ex_sends] (map fst ex_sends) = [(0, ''a''), (1, ''b'')]"
proof -
  define s0 where "s0 = server_init 0"
  define s1 where "s1 = packet_receiver ex_decode ex_d1 ex_addr 0 0 s0"
  define s2 where "s2 = timeout_checker 1 s1"
  define s3 where "s3 = packet_receiver ex_decode ex_d0 ex_addr 2 2 s2"
  have k0: "sample_ok s0" and c0: "next_expected_reliable s0 = 0"
    and b0: "reliable_buffer s0 = Map.empty" and p0: "pending_packets s0 = Map.empty"
    by (simp_all add: s0_def sample_ok_def server_init_def)
  note r1 = packet_receiver_carries [OF ex_carries(2) k0, of ex_addr 0 0, folded s1_def]
  have b1: "reliable_buffer s1 = [1 \<mapsto> ''b'']" and c1: "next_expected_reliable s1 = 0"
    and k1: "sample_ok s1"
    using r1 by (simp_all add: c0 b0)
  have p1: "pending_packets s1 0 = Some 0"
    using packet_receiver_pending [OF ex_carries(2) k0, of ex_addr 0 0 0, folded s1_def]
    by (simp add: c0 b0 p0)
  have e2: "s2 = s1\<lparr>pending_packets := (pending_packets s1)(0 := None),
                 metrics := (metrics s1)\<lparr>packets_skipped := packets_skipped (metrics s1) + 1\<rparr>,
                 next_expected_reliable := 1\<rparr>"
    unfolding s2_def by (simp add: timeout_checker_eq c1 p1 TIMEOUT_THRESHOLD_def)
  have b2: "reliable_buffer s2 = [1 \<mapsto> ''b'']" and c2: "next_expected_reliable s2 = 1"
    and k2: "sample_ok s2"
    using b1 k1 unfolding e2 by (simp_all add: sample_ok_def)
  note r3 = packet_receiver_carries [OF ex_carries(1) k2, of ex_addr 2 2, folded s3_def]
  have b3: "reliable_buffer s3 = [1 \<mapsto> ''b'']" and c3: "next_expected_reliable s3 = 1"
    using r3 by (simp_all add: b2 c2)
  have run: "run ex_decode ex_late s0 = s3"
    unfolding ex_late_def s3_def s2_def s1_def by simp
  have o1: "reliable_outputs ex_decode ex_late s0 = []"
    unfolding ex_late_def by simp
  define s4 where "s4 = snd (receive_reliable s3)"
  have rr: "receive_reliable s3 = (Some (1, ''b''), s4)"
    unfolding s4_def receive_reliable_eq [of s3] by (simp add: b3 c3)
  have b4: "reliable_buffer s4 (next_expected_reliable s4) = None"
    unfolding s4_def receive_reliable_eq [of s3] by (simp add: b3 c3)
  have rr4: "receive_reliable s4 = (None, s4)"
    unfolding receive_reliable_eq [of s4] by (simp add: b4)
  have o2: "reliable_outputs ex_decode [ReceiveReliable, ReceiveReliable] s3 = [(1, ''b'')]"
    by (simp add: rr rr4)
  have rep: "replicate 2 ReceiveReliable = [ReceiveReliable, ReceiveReliable]"
    by (simp add: numeral_2_eq_2)
  have "reliable_outputs ex_decode (ex_late @ replicate 2 ReceiveReliable) s0 = [(1, ''b'')]"
    unfolding rep reliable_outputs_append run o1 o2 by simp
  then have "reliable_outputs ex_decode (ex_late @ replicate 2 ReceiveReliable) (server_init 0)
      = [(1, ''b'')]"
    unfolding s0_def .
  with ex_sent ex_expected show ?thesis by (intro conjI)
qed

text \<open>
  The two packets arrive in the opposite order, with a call of \<^verbatim>\<open>receive_reliable\<close> in
  between, and are returned in the order of the sends.
\<close>
theorem lossless_delivery_witness:
  "(\<exists>c. send_reliable_all ex_encode ex_sends (client_init ex_addr) = Inr c
        \<and> map fst (c_socket_out c) = [ex_d0, ex_d1])
   \<and> packets_skipped (metrics (run ex_decode ex_reordered (server_init 0))) = 0
   \<and> reliable_outputs ex_decode (ex_reordered @ replicate 2 ReceiveReliable) (server_init 0)
       = [(0, ''a''), (1, ''b'')]"
proof -
  from ex_sent obtain c where
    cc: "send_reliable_all ex_encode ex_sends (client_init ex_addr) = Inr c
         \<and> map fst (c_socket_out c) = [ex_d0, ex_d1]" ..
  from cc have c: "send_reliable_all ex_encode ex_sends (client_init ex_addr) = Inr c" ..
  from cc have out: "map fst (c_socket_out c) = [ex_d0, ex_d1]" ..
  have "set (map fst (c_socket_out c)) = set [ex_d0, ex_d1]"
    by (simp only: out)
  then have D: "fst ` set (c_socket_out c) = {ex_d0, ex_d1}"
    by simp
  have codec: "\<forall>p \<in> fst ` set ex_sends. ex_decode (ex_encode p) = Some p"
    by (simp add: ex_sends_def ex_codec)
  have only: "\<forall>e \<in> set ex_reordered. \<forall>d a t1 t2.
      e = Datagram d a t1 t2 \<longrightarrow> d \<in> fst ` set (c_socket_out c)"
    unfolding D by (simp add: ex_reordered_def)
  have "Datagram ex_d0 ex_addr 0 0 \<in> set ex_reordered"
    and "Datagram ex_d1 ex_addr 0 0 \<in> set ex_reordered"
    by (simp_all add: ex_reordered_def)
  then have every: "\<forall>d \<in> fst ` set (c_socket_out c).
      \<exists>a t1 t2. Datagram d a t1 t2 \<in> set ex_reordered"
    unfolding D by blast
  have "packets_skipped (metrics (run ex_decode ex_reordered (server_init 0)))
      = packets_skipped (metrics (server_init 0))"
    by (rule run_skipped) (simp add: ex_reordered_def)
  then have noskip: "packets_skipped (metrics (run ex_decode ex_reordered (server_init 0))) = 0"
    by (simp add: server_init_def)
  have calls: "length ex_sends \<le> 2" by (simp add: ex_sends_def)
  have "reliable_outputs ex_decode (ex_reordered @ replicate 2 ReceiveReliable) (server_init 0)
      = [(0, ''a''), (1, ''b'')]"
    using lossless_delivery [OF codec c only every noskip calls]
    unfolding ex_expected .
  with ex_sent noskip show ?thesis by (intro conjI)
qed

text \<open>
  The acknowledgment of a second arrival of packet 1, already buffered, and the one that
  the receiver thread of a fresh server sends for the datagram of packet 1.
\<close>
theorem ack_always_sent_witness:
  "(1::nat) < 2 ^ 64
   \<and> (\<exists>s'. handle_reliable_channel 1 ''b'' ex_addr 0 ex_gap = Inr s'
          \<and> socket_out s' = socket_out ex_gap @ [(255 # le_bytes 8 1, ex_addr)])
   \<and> unpack_ack (255 # le_bytes 8 1) = Inr (255, 1)
   \<and> reachable ex_decode (server_init 0)
   \<and> carries ex_decode ex_d1 1 ''b''
   \<and> socket_out (packet_receiver ex_decode ex_d1 ex_addr 0 0 (server_init 0))
       = [(255 # le_bytes 8 1, ex_addr)]"
proof -
  have "server_init 0 = run ex_decode [] (server_init 0)" by simp
  then have r: "reachable ex_decode (server_init 0)"
    unfolding reachable_def by (intro exI)
  have one: "(1::nat) < 2 ^ 64" by simp
  have "socket_out (server_init 0) = []" by (simp add: server_init_def)
  with ack_always_sent [OF one, of "''b''" ex_addr 0 ex_gap ex_decode ex_d1 0]
    ack_always_sent [OF one, of "''b''" ex_addr 0 "server_init 0" ex_decode ex_d1 0]
    r ex_carries(2)
  show ?thesis by simp
qed

end
